theory Spec2Isabelle
  imports Main "HOL-Library.Word"
begin

unbundle bit_operations_syntax

section \<open>Machine types\<close>

text \<open>
  The C integer types of \<^verbatim>\<open>host.c\<close> are words of their width. A 6-byte
  Bluetooth address (\<^verbatim>\<open>bt_addr_t\<close>) is a 48-bit word and a 16-byte link key a
  128-bit word, so that \<^verbatim>\<open>memcmp\<close> over the whole field is equality of words
  and \<^verbatim>\<open>memcpy\<close> of the whole field is assignment.

  An access outside an array is undefined behaviour in C. Every function that can
  perform one returns an \<open>option\<close>, and \<open>None\<close> is that access.
\<close>

type_synonym u8 = "8 word"
type_synonym u16 = "16 word"
type_synonym u32 = "32 word"
type_synonym s32 = "32 word"
type_synonym bt_addr_t = "48 word"

section \<open>Link-key store\<close>

text \<open>
  \<^verbatim>\<open>struct bt_hci_cp_link_key_reply\<close> and \<^verbatim>\<open>struct bt_hci_evt_link_key_notify\<close>
  are declared in \<^verbatim>\<open>hci.h\<close>; \<^verbatim>\<open>host.c\<close> uses the fields \<^verbatim>\<open>bdaddr\<close> and
  \<^verbatim>\<open>link_key[16]\<close> of both, and copies a whole notify structure into the ring.
  The notify structure is the reply structure followed by one more byte.
\<close>

record bt_hci_cp_link_key_reply =
  bdaddr :: bt_addr_t
  link_key :: "128 word"

record bt_hci_evt_link_key_notify = bt_hci_cp_link_key_reply +
  key_type :: u8

text \<open>\<^verbatim>\<open>struct bt_host_link_keys\<close>: the insertion cursor and the 16 records.\<close>

record bt_host_link_keys =
  index :: u32
  link_keys :: "bt_hci_evt_link_key_notify list"

text \<open>
  The static variable \<^verbatim>\<open>bt_host_link_keys\<close> and the file \<^verbatim>\<open>/sd/linkkeys.bin\<close>
  (\<open>None\<close> while the file does not exist).
\<close>

record key_store =
  keys :: bt_host_link_keys
  keys_file :: "bt_host_link_keys option"

definition LINK_KEYS_SIZE :: nat where
  \<comment> \<open>\<^verbatim>\<open>ARRAY_SIZE(bt_host_link_keys.link_keys)\<close>\<close>
  "LINK_KEYS_SIZE = 16"

definition zero_link_key :: bt_hci_evt_link_key_notify where
  "zero_link_key = \<lparr>bdaddr = 0, link_key = 0, key_type = 0\<rparr>"

definition key_store_init :: key_store where
  \<comment> \<open>\<^verbatim>\<open>static struct bt_host_link_keys bt_host_link_keys = {0};\<close> and no file yet\<close>
  "key_store_init =
     \<lparr>keys = \<lparr>index = 0, link_keys = replicate LINK_KEYS_SIZE zero_link_key\<rparr>,
      keys_file = None\<rparr>"

text \<open>
  \<^verbatim>\<open>bt_host_store_keys_on_file\<close>: \<open>fopen_ok\<close> is whether \<^verbatim>\<open>fopen\<close> returned a
  file; the results of \<^verbatim>\<open>fwrite\<close> and \<^verbatim>\<open>fclose\<close> are not looked at by the code.
\<close>

definition bt_host_store_keys_on_file ::
  "bool \<Rightarrow> bt_host_link_keys \<Rightarrow> bt_host_link_keys option \<Rightarrow> bt_host_link_keys option \<times> s32"
where
  "bt_host_store_keys_on_file fopen_ok data file =
     (if \<not> fopen_ok then (file, - 1) else (Some data, 0))"

text \<open>
  The loop of \<^verbatim>\<open>bt_host_load_link_key\<close>: \<open>i\<close> is the loop counter, \<open>r\<close> the reply
  structure being filled and \<open>ret\<close> the return value so far.
\<close>

function load_link_key_loop ::
  "bt_hci_evt_link_key_notify list \<Rightarrow> nat \<Rightarrow> bt_hci_cp_link_key_reply \<Rightarrow> s32
     \<Rightarrow> bt_hci_cp_link_key_reply \<times> s32"
where
  "load_link_key_loop ks i r ret =
     (if i < LINK_KEYS_SIZE then
        (if bdaddr r = bdaddr (ks ! i)
         then load_link_key_loop ks (Suc i) (r\<lparr>link_key := link_key (ks ! i)\<rparr>) 0
         else load_link_key_loop ks (Suc i) r ret)
      else (r, ret))"
  by pat_completeness auto
termination
  by (relation "measure (\<lambda>(ks, i, r, ret). LINK_KEYS_SIZE - i)") auto

declare load_link_key_loop.simps [simp del]

definition bt_host_load_link_key ::
  "key_store \<Rightarrow> bt_hci_cp_link_key_reply \<Rightarrow> bt_hci_cp_link_key_reply \<times> s32"
where
  "bt_host_load_link_key s link_key_reply =
     load_link_key_loop (link_keys (keys s)) 0 link_key_reply (- 1)"

text \<open>
  The loop of \<^verbatim>\<open>bt_host_store_link_key\<close>: \<open>idx\<close> is the local variable
  \<^verbatim>\<open>index\<close>, which every matching record overwrites with its position.
\<close>

function store_link_key_loop ::
  "bt_hci_evt_link_key_notify list \<Rightarrow> bt_addr_t \<Rightarrow> nat \<Rightarrow> u32 \<Rightarrow> u32"
where
  "store_link_key_loop ks a i idx =
     (if i < LINK_KEYS_SIZE then
        store_link_key_loop ks a (Suc i) (if a = bdaddr (ks ! i) then of_nat i else idx)
      else idx)"
  by pat_completeness auto
termination
  by (relation "measure (\<lambda>(ks, a, i, idx). LINK_KEYS_SIZE - i)") auto

declare store_link_key_loop.simps [simp del]

text \<open>
  \<^verbatim>\<open>bt_host_store_link_key\<close>. The \<^verbatim>\<open>memcpy\<close> into \<^verbatim>\<open>link_keys[index]\<close> is
  outside the array when \<^verbatim>\<open>index\<close> is 16 or more, which the cursor read from
  the file can be.
\<close>

definition bt_host_store_link_key ::
  "bool \<Rightarrow> key_store \<Rightarrow> bt_hci_evt_link_key_notify \<Rightarrow> (key_store \<times> s32) option"
where
  "bt_host_store_link_key fopen_ok s link_key_notify =
     (let idx = store_link_key_loop (link_keys (keys s)) (bdaddr link_key_notify) 0
                  (index (keys s))
      in if \<not> unat idx < LINK_KEYS_SIZE then None
         else
           let k1 = (keys s)\<lparr>link_keys := (link_keys (keys s))[unat idx := link_key_notify]\<rparr>;
               k2 = (if idx = index k1 then k1\<lparr>index := (index k1 + 1) AND 0xF\<rparr> else k1);
               (file, ret) = bt_host_store_keys_on_file fopen_ok k2 (keys_file s)
           in Some (s\<lparr>keys := k2, keys_file := file\<rparr>, ret))"

text \<open>
  A sequence of calls of \<^verbatim>\<open>bt_host_store_link_key\<close>, each with whether \<^verbatim>\<open>fopen\<close>
  returns a file: the store after the last call.
\<close>

fun store_link_key_seq ::
  "key_store \<Rightarrow> (bool \<times> bt_hci_evt_link_key_notify) list \<Rightarrow> key_store option"
where
  "store_link_key_seq s [] = Some s"
| "store_link_key_seq s (c # cs) =
     (case bt_host_store_link_key (fst c) s (snd c) of
        None \<Rightarrow> None
      | Some (s1, ret) \<Rightarrow> store_link_key_seq s1 cs)"

text \<open>
  A full ring as sixteen stores of the addresses 1 to 16 leave it: the record of address
  \<open>i + 1\<close> at position \<open>i\<close> and the cursor back at 0.
\<close>

definition ring_of_sixteen :: key_store where
  "ring_of_sixteen =
     \<lparr>keys = \<lparr>index = 0,
              link_keys = map (\<lambda>a. \<lparr>bdaddr = a, link_key = 0, key_type = 0\<rparr>)
                            [1, 2, 3, 4, 5, 6, 7, 8, 9, 10, 11, 12, 13, 14, 15, 16]\<rparr>,
      keys_file = None\<rparr>"

section \<open>Flags and the device session table\<close>

text \<open>
  Modelled from the spec: the atomic bit operations of \<^verbatim>\<open>../zephyr/atomic.h\<close>, which is
  not among the sources ("atomic bit operations for cross-context flags", "status flags
  (independent bits)"). An \<^verbatim>\<open>atomic_t\<close> is a 32-bit word; the operations test, set
  and clear the bit of a given number.
\<close>

definition atomic_test_bit :: "u32 \<Rightarrow> nat \<Rightarrow> bool" where
  "atomic_test_bit target b = bit target b"

definition atomic_set_bit :: "u32 \<Rightarrow> nat \<Rightarrow> u32" where
  "atomic_set_bit target b = set_bit b target"

definition atomic_clear_bit :: "u32 \<Rightarrow> nat \<Rightarrow> u32" where
  "atomic_clear_bit target b = unset_bit b target"

text \<open>The flags of \<^verbatim>\<open>bt_flags\<close>, numbered by the \<^verbatim>\<open>enum\<close> of \<^verbatim>\<open>host.c\<close>.\<close>

definition BT_CTRL_READY :: nat where
  "BT_CTRL_READY = 0"

definition BT_HOST_DISCONN_SW_INHIBIT :: nat where
  "BT_HOST_DISCONN_SW_INHIBIT = 1"

definition BT_DEV_MAX :: nat where
  "BT_DEV_MAX = 7"

text \<open>
  Modelled from the spec: \<^verbatim>\<open>BT_DEV_DEVICE_FOUND\<close>, the "discovered/bonded" status
  flag of a device session, an enumerator of \<^verbatim>\<open>host.h\<close>, which is not among the
  sources. Its number is that of the first enumerator; no property below depends on
  which bit it is.
\<close>

definition BT_DEV_DEVICE_FOUND :: nat where
  "BT_DEV_DEVICE_FOUND = 0"

text \<open>
  Modelled from the spec: \<^verbatim>\<open>struct l2cap_chan\<close> and \<^verbatim>\<open>struct bt_dev\<close> of
  \<^verbatim>\<open>host.h\<close>, which is not among the sources ("connection handle, remote address
  (6 bytes), device-type classification", "channel map", "status flags"). The records
  hold the fields that \<^verbatim>\<open>host.c\<close> reads or writes; \<open>id_dev\<close>, \<open>flags_dev\<close> and
  \<open>type_dev\<close> are the C fields \<^verbatim>\<open>id\<close>, \<^verbatim>\<open>flags\<close> and \<^verbatim>\<open>type\<close>.
\<close>

record l2cap_chan =
  scid :: u16

record bt_dev =
  id_dev :: s32
  flags_dev :: u32
  remote_bdaddr :: bt_addr_t
  type_dev :: s32
  acl_handle :: u16
  sdp_tx_chan :: l2cap_chan
  sdp_rx_chan :: l2cap_chan
  ctrl_chan :: l2cap_chan
  intr_chan :: l2cap_chan

definition zero_bt_dev :: bt_dev where
  \<comment> \<open>a session after \<^verbatim>\<open>memset((void *)device, 0, sizeof(*device))\<close>\<close>
  "zero_bt_dev =
     \<lparr>id_dev = 0, flags_dev = 0, remote_bdaddr = 0, type_dev = 0, acl_handle = 0,
      sdp_tx_chan = \<lparr>scid = 0\<rparr>, sdp_rx_chan = \<lparr>scid = 0\<rparr>,
      ctrl_chan = \<lparr>scid = 0\<rparr>, intr_chan = \<lparr>scid = 0\<rparr>\<rparr>"

text \<open>
  Modelled from the spec: \<^verbatim>\<open>struct hid_report\<close> and \<^verbatim>\<open>struct bt_data\<close> of
  \<^verbatim>\<open>adapter.h\<close>, which is not among the sources (the "generic-adapter" data of a
  session: input buffer, output buffer, report counter, "small per-type report table").
  The records hold the fields that \<^verbatim>\<open>host.c\<close> reads or writes; an array is the list
  of its elements, so the size of \<^verbatim>\<open>input\<close> is \<open>length (input_buf d)\<close> and
  \<^verbatim>\<open>REPORT_MAX\<close> is \<open>length (reports d)\<close>. \<open>input_buf\<close> and \<open>output_buf\<close> are
  the C fields \<^verbatim>\<open>input\<close> and \<^verbatim>\<open>output\<close>; \<open>id_rep\<close> and \<open>len_rep\<close> are the
  C fields \<^verbatim>\<open>id\<close> and \<^verbatim>\<open>len\<close> of a report.
\<close>

record hid_report =
  id_rep :: u8
  len_rep :: u32

record bt_data =
  flags :: u32
  output_buf :: "u8 list"
  dev_id :: s32
  dev_type :: s32
  report_cnt :: u32
  report_id :: u8
  report_type :: s32
  input_buf :: "u8 list"
  reports :: "hid_report list"

definition zero_bt_data :: "bt_data \<Rightarrow> bt_data" where
  \<comment> \<open>\<^verbatim>\<open>memset\<close> of the structure to 0: every field 0, the arrays keep their sizes\<close>
  "zero_bt_data d =
     \<lparr>flags = 0, output_buf = replicate (length (output_buf d)) 0, dev_id = 0, dev_type = 0,
      report_cnt = 0, report_id = 0, report_type = 0,
      input_buf = replicate (length (input_buf d)) 0,
      reports = replicate (length (reports d)) \<lparr>id_rep = 0, len_rep = 0\<rparr>\<rparr>"

text \<open>
  Modelled from the spec: \<^verbatim>\<open>BT_INIT\<close>, the "session is marked initialized" flag of
  \<^verbatim>\<open>bt_data.flags\<close>, and \<^verbatim>\<open>HID_GENERIC\<close>, the device type "requiring explicit
  report-id-to-length resolution", enumerators of \<^verbatim>\<open>adapter.h\<close>, which is not among
  the sources. No property below depends on their numbers.
\<close>

definition BT_INIT :: nat where
  "BT_INIT = 0"

definition HID_GENERIC :: s32 where
  "HID_GENERIC = 0"

text \<open>
  The static variables of \<^verbatim>\<open>host.c\<close> (the link-key ring apart), the items queued in
  the ring buffer \<^verbatim>\<open>txq_hdl\<close>, oldest first, and \<^verbatim>\<open>bt_adapter.data\<close>, the array
  of generic-adapter data that \<^verbatim>\<open>adapter.c\<close> defines.
\<close>

record host =
  bt_dev_conf :: bt_dev
  bt_dev :: "bt_dev list"
  bt_flags :: u32
  frag_size :: u32
  frag_offset :: u32
  frag_buf :: "u8 list"
  txq :: "u8 list list"
  bt_adapter_data :: "bt_data list"

text \<open>
  A pointer to a session: \<^verbatim>\<open>&bt_dev[i]\<close> or \<^verbatim>\<open>&bt_dev_conf\<close>. Reading through a
  pointer past the end of \<^verbatim>\<open>bt_dev\<close> is an access outside the array.
\<close>

datatype dev_ref = Dev nat | Dev_conf

definition deref :: "host \<Rightarrow> dev_ref \<Rightarrow> bt_dev option" where
  "deref s p =
     (case p of
        Dev i \<Rightarrow> if i < BT_DEV_MAX then Some (bt_dev s ! i) else None
      | Dev_conf \<Rightarrow> Some (bt_dev_conf s))"

text \<open>
  The four search loops over \<^verbatim>\<open>bt_dev\<close> have one shape,
  \<^verbatim>\<open>for (i = 0; i < BT_DEV_MAX; i++) if (test(bt_dev[i])) { *device = &bt_dev[i]; return i; }\<close>
  followed by \<^verbatim>\<open>return -1\<close>, and differ in the test. \<open>Some i\<close> is the return of
  \<open>i\<close> with \<^verbatim>\<open>*device\<close> set to slot \<open>i\<close>; \<open>None\<close> is the return of \<open>-1\<close> with
  \<^verbatim>\<open>*device\<close> left as it was.
\<close>

function bt_dev_loop :: "(bt_dev \<Rightarrow> bool) \<Rightarrow> bt_dev list \<Rightarrow> nat \<Rightarrow> nat option" where
  "bt_dev_loop test devs i =
     (if i < BT_DEV_MAX then
        (if test (devs ! i) then Some i else bt_dev_loop test devs (Suc i))
      else None)"
  by pat_completeness auto
termination
  by (relation "measure (\<lambda>(test, devs, i). BT_DEV_MAX - i)") auto

declare bt_dev_loop.simps [simp del]

definition bt_host_get_new_dev :: "host \<Rightarrow> nat option" where
  "bt_host_get_new_dev s =
     bt_dev_loop (\<lambda>d. \<not> atomic_test_bit (flags_dev d) BT_DEV_DEVICE_FOUND) (bt_dev s) 0"

definition bt_host_get_active_dev :: "host \<Rightarrow> nat option" where
  "bt_host_get_active_dev s =
     bt_dev_loop (\<lambda>d. atomic_test_bit (flags_dev d) BT_DEV_DEVICE_FOUND) (bt_dev s) 0"

definition bt_host_get_dev_from_bdaddr :: "host \<Rightarrow> bt_addr_t \<Rightarrow> nat option" where
  "bt_host_get_dev_from_bdaddr s a =
     bt_dev_loop (\<lambda>d. atomic_test_bit (flags_dev d) BT_DEV_DEVICE_FOUND \<and> a = remote_bdaddr d)
       (bt_dev s) 0"

text \<open>
  Modelled from the spec: the macros \<^verbatim>\<open>bt_acl_handle\<close> and \<^verbatim>\<open>bt_acl_flags\<close> and the
  flag values \<^verbatim>\<open>BT_ACL_CONT\<close> and \<^verbatim>\<open>BT_ACL_START\<close> of \<^verbatim>\<open>hci.h\<close>, which is not
  among the sources ("handle is masked to its connection-handle bits before comparison
  (upper bits carry flow-control flags and must be stripped)"): the handle is the low 12
  bits of the 16-bit field, the flags are the bits above, with the values of the HCI ACL
  data packet.
\<close>

definition bt_acl_handle :: "u16 \<Rightarrow> u16" where
  "bt_acl_handle h = h AND 0x0FFF"

definition bt_acl_flags :: "u16 \<Rightarrow> u16" where
  "bt_acl_flags h = drop_bit 12 h"

definition BT_ACL_CONT :: u16 where
  "BT_ACL_CONT = 1"

definition BT_ACL_START :: u16 where
  "BT_ACL_START = 2"

definition bt_host_get_dev_from_handle :: "host \<Rightarrow> u16 \<Rightarrow> nat option" where
  "bt_host_get_dev_from_handle s handle =
     bt_dev_loop (\<lambda>d. atomic_test_bit (flags_dev d) BT_DEV_DEVICE_FOUND \<and>
                       bt_acl_handle handle = acl_handle d)
       (bt_dev s) 0"

text \<open>
  An \<^verbatim>\<open>int32_t\<close> used as an index into an array of \<open>n\<close> elements.
\<close>

definition index_of :: "s32 \<Rightarrow> nat \<Rightarrow> nat option" where
  "index_of i n = (if 0 \<le> sint i \<and> nat (sint i) < n then Some (nat (sint i)) else None)"

text \<open>
  The calls of functions that other files define, in the order in which they are made.
\<close>

datatype call =
    Adapter_init_buffer s32
  | Adapter_bridge nat
  | Bt_hid_feedback nat "u8 list"
  | VTaskDelay nat
  | Esp_vhci_host_send_packet "u8 list"

text \<open>
  \<^verbatim>\<open>bt_host_reset_dev\<close>. \<^verbatim>\<open>device->id\<close> is read before the session is zeroed, and
  indexes \<^verbatim>\<open>bt_adapter.data\<close>.
\<close>

definition bt_host_reset_dev :: "host \<Rightarrow> dev_ref \<Rightarrow> (host \<times> call list) option" where
  "bt_host_reset_dev s device =
     (case deref s device of
        None \<Rightarrow> None
      | Some d \<Rightarrow>
          (case index_of (id_dev d) (length (bt_adapter_data s)) of
             None \<Rightarrow> None
           | Some k \<Rightarrow>
               let s1 = s\<lparr>bt_adapter_data :=
                           (bt_adapter_data s)[k := zero_bt_data (bt_adapter_data s ! k)]\<rparr>;
                   s2 = (case device of
                           Dev i \<Rightarrow> s1\<lparr>bt_dev := (bt_dev s1)[i := zero_bt_dev]\<rparr>
                         | Dev_conf \<Rightarrow> s1\<lparr>bt_dev_conf := zero_bt_dev\<rparr>)
               in Some (s2, [Adapter_init_buffer (id_dev d)])))"

text \<open>
  The state at program start: every static variable is 0 and the queue is empty. The sizes
  of the arrays of \<^verbatim>\<open>bt_adapter.data\<close> are declared in \<^verbatim>\<open>adapter.h\<close>; the examples take
  7 sessions, 128 bytes of input and of output and 4 reports.
\<close>

definition host_zero :: host where
  "host_zero =
     \<lparr>bt_dev_conf = zero_bt_dev,
      bt_dev = replicate BT_DEV_MAX zero_bt_dev,
      bt_flags = 0, frag_size = 0, frag_offset = 0,
      frag_buf = replicate 1024 0,
      txq = [],
      bt_adapter_data = replicate 7
        \<lparr>flags = 0, output_buf = replicate 128 0, dev_id = 0, dev_type = 0, report_cnt = 0,
         report_id = 0, report_type = 0, input_buf = replicate 128 0,
         reports = replicate 4 \<lparr>id_rep = 0, len_rep = 0\<rparr>\<rparr>\<rparr>"

text \<open>
  A table whose seven sessions are all marked found, session \<open>i\<close> with id \<open>i\<close>, and
  whose generic-adapter data are in use: initialized, five reports seen, bytes in the
  buffers and a report table.
\<close>

definition full_table :: host where
  "full_table =
     host_zero\<lparr>bt_dev := map (\<lambda>i. zero_bt_dev\<lparr>id_dev := i, flags_dev := 1\<rparr>)
                             [0, 1, 2, 3, 4, 5, 6],
               bt_adapter_data := replicate 7
                 \<lparr>flags = 1, output_buf = replicate 128 7, dev_id = 3, dev_type = 1,
                  report_cnt = 5, report_id = 1, report_type = 2, input_buf = replicate 128 9,
                  reports = replicate 4 \<lparr>id_rep = 1, len_rep = 8\<rparr>\<rparr>\<rparr>"

section \<open>Bridge and feedback relay\<close>

text \<open>
  \<^verbatim>\<open>memcpy(dst + off, src, n)\<close> into the array \<open>dst\<close>, from the bytes that start at
  the pointer \<open>src\<close>. Writing past the end of \<open>dst\<close> or reading past the end of
  \<open>src\<close> is an access outside an array.
\<close>

definition memcpy :: "u8 list \<Rightarrow> nat \<Rightarrow> u8 list \<Rightarrow> nat \<Rightarrow> u8 list option" where
  "memcpy dst off src n =
     (if off + n \<le> length dst \<and> n \<le> length src
      then Some (take off dst @ take n src @ drop (off + n) dst)
      else None)"

text \<open>
  The loop of \<^verbatim>\<open>bt_host_bridge\<close> over the report table: the value of \<^verbatim>\<open>i\<close> when
  the loop ends, which is \<^verbatim>\<open>REPORT_MAX\<close> when no report has the id.
\<close>

function report_loop :: "hid_report list \<Rightarrow> u8 \<Rightarrow> nat \<Rightarrow> nat" where
  "report_loop reps rid i =
     (if i < length reps then
        (if id_rep (reps ! i) = rid then i else report_loop reps rid (Suc i))
      else i)"
  by pat_completeness auto
termination
  by (relation "measure (\<lambda>(reps, rid, i). length reps - i)") auto

declare report_loop.simps [simp del]

text \<open>
  \<^verbatim>\<open>bt_host_bridge\<close>. \<open>adapter_bridge\<close> is what the function of that name, which
  \<^verbatim>\<open>adapter.c\<close> defines, does to the \<^verbatim>\<open>bt_data\<close> it is given; \<open>device\<close> is the
  session that the pointer \<^verbatim>\<open>device\<close> points to, which is only read. The result
  lists the calls of \<^verbatim>\<open>adapter_bridge\<close>.
\<close>

definition bt_host_bridge ::
  "(bt_data \<Rightarrow> bt_data) \<Rightarrow> host \<Rightarrow> bt_dev \<Rightarrow> u8 \<Rightarrow> u8 list \<Rightarrow> u32 \<Rightarrow> (host \<times> call list) option"
where
  "bt_host_bridge adapter_bridge s device rid data len =
     (case index_of (id_dev device) (length (bt_adapter_data s)) of
        None \<Rightarrow> None
      | Some k \<Rightarrow>
          let d = bt_adapter_data s ! k;
              i = report_loop (reports d) rid 0;
              generic = (type_dev device = HID_GENERIC)
          in if generic \<and> i = length (reports d) then Some (s, [])
             else
               let d1 = (if generic then d\<lparr>report_type := of_nat i\<rparr> else d);
                   len1 = (if generic then len_rep (reports d ! i) else len)
               in if atomic_test_bit (flags d1) BT_INIT \<or> 1 < report_cnt d1 then
                    (case memcpy (input_buf d1) 0 data (unat len1) of
                       None \<Rightarrow> None
                     | Some buf \<Rightarrow>
                         let d2 = adapter_bridge
                                    (d1\<lparr>report_id := rid, dev_id := id_dev device,
                                        dev_type := type_dev device, input_buf := buf\<rparr>);
                             d3 = d2\<lparr>report_cnt := report_cnt d2 + 1\<rparr>
                         in Some (s\<lparr>bt_adapter_data := (bt_adapter_data s)[k := d3]\<rparr>,
                                  [Adapter_bridge k]))
                  else
                    Some (s\<lparr>bt_adapter_data :=
                              (bt_adapter_data s)[k := d1\<lparr>report_cnt := report_cnt d1 + 1\<rparr>]\<rparr>,
                          []))"

text \<open>
  One turn of the loop of \<^verbatim>\<open>bt_fb_task\<close>, for the item \<open>fb_data\<close> that
  \<^verbatim>\<open>xRingbufferReceive\<close> returned; \<^verbatim>\<open>fb_len\<close> is its length. \<open>adapter_bridge_fb\<close>
  is the return value of the function of that name and what it does to the
  \<^verbatim>\<open>bt_data\<close> it is given. The result lists the calls of \<^verbatim>\<open>bt_hid_feedback\<close>, with
  the slot of the session and the output buffer passed.
\<close>

definition bt_fb_task_item ::
  "(u8 list \<Rightarrow> bt_data \<Rightarrow> bool \<times> bt_data) \<Rightarrow> host \<Rightarrow> u8 list \<Rightarrow> (host \<times> call list) option"
where
  "bt_fb_task_item adapter_bridge_fb s fb_data =
     (if length fb_data < 1 then None
      else
        (case deref s (Dev (unat (fb_data ! 0))) of
           None \<Rightarrow> None
         | Some device \<Rightarrow>
             (case index_of (id_dev device) (length (bt_adapter_data s)) of
                None \<Rightarrow> None
              | Some k \<Rightarrow>
                  let (changed, d) = adapter_bridge_fb fb_data (bt_adapter_data s ! k);
                      s1 = s\<lparr>bt_adapter_data := (bt_adapter_data s)[k := d]\<rparr>
                  in Some (s1, if changed
                               then [Bt_hid_feedback (unat (fb_data ! 0)) (output_buf d)]
                               else []))))"

section \<open>Transmit queue\<close>

text \<open>\<^verbatim>\<open>bt_host_tx_pkt_ready\<close>, the callback of the controller.\<close>

definition bt_host_tx_pkt_ready :: "host \<Rightarrow> host" where
  "bt_host_tx_pkt_ready s = s\<lparr>bt_flags := atomic_set_bit (bt_flags s) BT_CTRL_READY\<rparr>"

text \<open>
  \<^verbatim>\<open>bt_host_txq_add\<close>. The packet and its length are one list. \<open>room\<close> tells whether
  \<^verbatim>\<open>xRingbufferSend\<close>, called without waiting, finds room for the item in the ring
  buffer.
\<close>

definition bt_host_txq_add ::
  "(u8 list list \<Rightarrow> u8 list \<Rightarrow> bool) \<Rightarrow> host \<Rightarrow> u8 list \<Rightarrow> host \<times> s32"
where
  "bt_host_txq_add room s packet =
     (if room (txq s) packet then (s\<lparr>txq := txq s @ [packet]\<rparr>, 0) else (s, - 1))"

text \<open>
  \<^verbatim>\<open>bt_host_q_wait_pkt\<close>: the initialiser \<^verbatim>\<open>{0xFF, ms}\<close> converts the 32-bit
  \<^verbatim>\<open>ms\<close> to a byte.
\<close>

definition bt_host_q_wait_pkt ::
  "(u8 list list \<Rightarrow> u8 list \<Rightarrow> bool) \<Rightarrow> host \<Rightarrow> u32 \<Rightarrow> host"
where
  "bt_host_q_wait_pkt room s ms = fst (bt_host_txq_add room s [0xFF, ucast ms])"

text \<open>
  One turn of the loop of \<^verbatim>\<open>bt_tx_task\<close>. \<open>tick\<close> is \<^verbatim>\<open>portTICK_PERIOD_MS\<close>, a
  constant of the FreeRTOS configuration. With the queue empty the task stays in
  \<^verbatim>\<open>xRingbufferReceive\<close>, which waits without limit: nothing changes. The result
  lists the calls of \<^verbatim>\<open>vTaskDelay\<close>, with the number of ticks, and of
  \<^verbatim>\<open>esp_vhci_host_send_packet\<close>, with the packet.
\<close>

definition bt_tx_task_iter :: "nat \<Rightarrow> host \<Rightarrow> (host \<times> call list) option" where
  "bt_tx_task_iter tick s =
     (if atomic_test_bit (bt_flags s) BT_CTRL_READY then
        (case txq s of
           [] \<Rightarrow> Some (s, [])
         | packet # rest \<Rightarrow>
             if length packet < 1 then None
             else if packet ! 0 = 0xFF then
               (if length packet < 2 then None
                else Some (s\<lparr>txq := rest\<rparr>, [VTaskDelay (unat (packet ! 1) div tick)]))
             else
               Some (s\<lparr>bt_flags := atomic_clear_bit (bt_flags s) BT_CTRL_READY, txq := rest\<rparr>,
                     [Esp_vhci_host_send_packet packet]))
      else Some (s, []))"

text \<open>
  The steps that the drain task, the controller and the callers of the queue take, one
  at a time, and the calls that a sequence of steps makes.
\<close>

datatype host_op =
    Tx_task_iter
  | Tx_pkt_ready
  | Txq_add "u8 list"
  | Q_wait_pkt u32

definition host_step ::
  "(u8 list list \<Rightarrow> u8 list \<Rightarrow> bool) \<Rightarrow> nat \<Rightarrow> host \<Rightarrow> host_op \<Rightarrow> (host \<times> call list) option"
where
  "host_step room tick s x =
     (case x of
        Tx_task_iter \<Rightarrow> bt_tx_task_iter tick s
      | Tx_pkt_ready \<Rightarrow> Some (bt_host_tx_pkt_ready s, [])
      | Txq_add packet \<Rightarrow> Some (fst (bt_host_txq_add room s packet), [])
      | Q_wait_pkt ms \<Rightarrow> Some (bt_host_q_wait_pkt room s ms, []))"

fun host_run ::
  "(u8 list list \<Rightarrow> u8 list \<Rightarrow> bool) \<Rightarrow> nat \<Rightarrow> host \<Rightarrow> host_op list \<Rightarrow> (host \<times> call list) option"
where
  "host_run room tick s [] = Some (s, [])"
| "host_run room tick s (x # xs) =
     (case host_step room tick s x of
        None \<Rightarrow> None
      | Some (s1, cs1) \<Rightarrow>
          (case host_run room tick s1 xs of
             None \<Rightarrow> None
           | Some (s2, cs2) \<Rightarrow> Some (s2, cs1 @ cs2)))"

definition is_send :: "call \<Rightarrow> bool" where
  "is_send c = (case c of Esp_vhci_host_send_packet p \<Rightarrow> True | _ \<Rightarrow> False)"

section \<open>ACL reassembly and routing\<close>

text \<open>
  Modelled from the spec: the layout of \<^verbatim>\<open>struct bt_hci_pkt\<close> and the header sizes of
  \<^verbatim>\<open>hci.h\<close> and \<^verbatim>\<open>l2cap.h\<close>, which are not among the sources ("HCI-framed packets
  (type-tagged: command/event/ACL-data)", "L2CAP payload length + header overhead"). The
  structure is packed: one byte of H4 type, the ACL header (handle and flags, data
  length: two bytes each), the L2CAP header (length, channel id: two bytes each), all
  little-endian. A received packet is the list of its bytes, and a field that the list
  does not hold is outside it.
\<close>

definition BT_HCI_H4_HDR_SIZE :: nat where
  "BT_HCI_H4_HDR_SIZE = 1"

definition BT_HCI_ACL_HDR_SIZE :: nat where
  "BT_HCI_ACL_HDR_SIZE = 4"

definition BT_L2CAP_HDR_SIZE :: nat where
  \<comment> \<open>\<^verbatim>\<open>sizeof(struct bt_l2cap_hdr)\<close>\<close>
  "BT_L2CAP_HDR_SIZE = 4"

definition le16 :: "u8 list \<Rightarrow> nat \<Rightarrow> u16 option" where
  "le16 p off =
     (if off + 1 < length p
      then Some (ucast (p ! off) OR push_bit 8 (ucast (p ! (off + 1))))
      else None)"

definition acl_hdr_handle :: "u8 list \<Rightarrow> u16 option" where
  "acl_hdr_handle p = le16 p BT_HCI_H4_HDR_SIZE"

definition acl_hdr_len :: "u8 list \<Rightarrow> u16 option" where
  "acl_hdr_len p = le16 p (BT_HCI_H4_HDR_SIZE + 2)"

definition l2cap_hdr_len :: "u8 list \<Rightarrow> u16 option" where
  "l2cap_hdr_len p = le16 p (BT_HCI_H4_HDR_SIZE + BT_HCI_ACL_HDR_SIZE)"

definition l2cap_hdr_cid :: "u8 list \<Rightarrow> u16 option" where
  "l2cap_hdr_cid p = le16 p (BT_HCI_H4_HDR_SIZE + BT_HCI_ACL_HDR_SIZE + 2)"

text \<open>
  Modelled from the spec: the fixed channel ids \<^verbatim>\<open>BT_L2CAP_CID_BR_SIG\<close> ("signaling
  channel id") and \<^verbatim>\<open>BT_L2CAP_CID_ATT\<close> ("the generic attribute-protocol id") of
  \<^verbatim>\<open>l2cap.h\<close>, which is not among the sources, with the values that L2CAP assigns.
\<close>

definition BT_L2CAP_CID_BR_SIG :: u16 where
  "BT_L2CAP_CID_BR_SIG = 0x0001"

definition BT_L2CAP_CID_ATT :: u16 where
  "BT_L2CAP_CID_ATT = 0x0004"

text \<open>
  What \<^verbatim>\<open>bt_host_acl_hdlr\<close> does with a packet: it returns to wait for the next
  fragment, it returns after the start of a fragmented frame, or it goes on to the
  handler of the frame. The handlers are defined in other files; \<open>Dev_null\<close> is the
  message \<^verbatim>\<open>dev NULL!\<close> and \<open>No_hdlr\<close> the end of the function with no call.
\<close>

datatype acl_route =
    Bt_att_hdlr
  | Dev_null
  | Bt_l2cap_sig_hdlr nat
  | Bt_sdp_hdlr nat
  | Bt_hid_hdlr nat
  | No_hdlr

datatype acl_outcome =
    Frag_wait
  | Frag_start
  | Dispatch acl_route "u8 list" u32

text \<open>
  Lines 276 to 297 of \<^verbatim>\<open>host.c\<close>: the choice of the handler, for the session
  \<open>device\<close> found for the handle (\<open>None\<close> is \<^verbatim>\<open>NULL\<close>) and the frame \<open>pkt\<close>.
\<close>

definition acl_route_of :: "host \<Rightarrow> nat option \<Rightarrow> u16 \<Rightarrow> acl_route" where
  "acl_route_of s device cid =
     (case device of
        None \<Rightarrow> if cid = BT_L2CAP_CID_ATT then Bt_att_hdlr else Dev_null
      | Some i \<Rightarrow>
          if cid = BT_L2CAP_CID_BR_SIG then Bt_l2cap_sig_hdlr i
          else if cid = scid (sdp_tx_chan (bt_dev s ! i)) \<or> cid = scid (sdp_rx_chan (bt_dev s ! i))
          then Bt_sdp_hdlr i
          else if cid = scid (ctrl_chan (bt_dev s ! i)) \<or> cid = scid (intr_chan (bt_dev s ! i))
          then Bt_hid_hdlr i
          else No_hdlr)"

definition acl_dispatch :: "host \<Rightarrow> nat option \<Rightarrow> u8 list \<Rightarrow> u32 \<Rightarrow> (host \<times> acl_outcome) option" where
  "acl_dispatch s device pkt pkt_len =
     (case l2cap_hdr_cid pkt of
        None \<Rightarrow> None
      | Some cid \<Rightarrow> Some (s, Dispatch (acl_route_of s device cid) pkt pkt_len))"

text \<open>
  Lines 267 to 297: the test for the start of a fragmented frame, on the frame \<open>pkt\<close> of
  \<open>pkt_len\<close> bytes, which is the received packet or the scratch buffer. The
  subtraction is a subtraction of \<^verbatim>\<open>uint32_t\<close>.
\<close>

definition acl_start :: "host \<Rightarrow> nat option \<Rightarrow> u8 list \<Rightarrow> u32 \<Rightarrow> (host \<times> acl_outcome) option" where
  "acl_start s device pkt pkt_len =
     (case acl_hdr_handle pkt of
        None \<Rightarrow> None
      | Some handle \<Rightarrow>
          if bt_acl_flags handle = BT_ACL_START then
            (case l2cap_hdr_len pkt of
               None \<Rightarrow> None
             | Some l2len \<Rightarrow>
                 if pkt_len - of_nat (BT_HCI_H4_HDR_SIZE + BT_HCI_ACL_HDR_SIZE + BT_L2CAP_HDR_SIZE)
                      < ucast l2len
                 then
                   (case memcpy (frag_buf s) 0 pkt (unat pkt_len) of
                      None \<Rightarrow> None
                    | Some buf \<Rightarrow>
                        Some (s\<lparr>frag_buf := buf, frag_offset := pkt_len,
                                frag_size := ucast l2len +
                                  of_nat (BT_HCI_H4_HDR_SIZE + BT_HCI_ACL_HDR_SIZE +
                                          BT_L2CAP_HDR_SIZE)\<rparr>,
                              Frag_start))
                 else acl_dispatch s device pkt pkt_len)
          else acl_dispatch s device pkt pkt_len)"

text \<open>
  \<^verbatim>\<open>bt_host_acl_hdlr\<close>, for the received packet \<open>bt_hci_acl_pkt\<close> and the length
  \<open>len\<close> that the caller passes. The session is looked up once, for the handle of the
  received packet.
\<close>

definition bt_host_acl_hdlr :: "host \<Rightarrow> u8 list \<Rightarrow> u32 \<Rightarrow> (host \<times> acl_outcome) option" where
  "bt_host_acl_hdlr s bt_hci_acl_pkt len =
     (case acl_hdr_handle bt_hci_acl_pkt of
        None \<Rightarrow> None
      | Some handle \<Rightarrow>
          let device = bt_host_get_dev_from_handle s handle
          in if bt_acl_flags handle = BT_ACL_CONT then
               (case acl_hdr_len bt_hci_acl_pkt of
                  None \<Rightarrow> None
                | Some alen \<Rightarrow>
                    (case memcpy (frag_buf s) (unat (frag_offset s))
                            (drop (BT_HCI_H4_HDR_SIZE + BT_HCI_ACL_HDR_SIZE) bt_hci_acl_pkt)
                            (unat alen) of
                       None \<Rightarrow> None
                     | Some buf \<Rightarrow>
                         let s1 = s\<lparr>frag_buf := buf, frag_offset := frag_offset s + ucast alen\<rparr>
                         in if frag_offset s1 < frag_size s1 then Some (s1, Frag_wait)
                            else acl_start s1 device (frag_buf s1) (frag_size s1)))
             else acl_start s device bt_hci_acl_pkt len)"

text \<open>
  A sequence of received packets, each with its length, handled in order: the outcomes.
\<close>

fun acl_hdlr_seq :: "host \<Rightarrow> u8 list list \<Rightarrow> (host \<times> acl_outcome list) option" where
  "acl_hdlr_seq s [] = Some (s, [])"
| "acl_hdlr_seq s (p # ps) =
     (case bt_host_acl_hdlr s p (of_nat (length p)) of
        None \<Rightarrow> None
      | Some (s1, r) \<Rightarrow>
          (case acl_hdlr_seq s1 ps of
             None \<Rightarrow> None
           | Some (s2, rs) \<Rightarrow> Some (s2, r # rs)))"

section \<open>Auxiliary definitions for the statements\<close>

text \<open>
  Two parts of the body of \<^verbatim>\<open>bt_host_bridge\<close>, named for use in the statements: the
  generic-adapter data after the loop over the report table, and the length that
  \<^verbatim>\<open>memcpy\<close> copies.
\<close>

definition bridge_d1 :: "bt_data \<Rightarrow> bt_dev \<Rightarrow> u8 \<Rightarrow> bt_data" where
  "bridge_d1 d device rid =
     (if type_dev device = HID_GENERIC
      then d\<lparr>report_type := of_nat (report_loop (reports d) rid 0)\<rparr> else d)"

definition bridge_len :: "bt_data \<Rightarrow> bt_dev \<Rightarrow> u8 \<Rightarrow> u32 \<Rightarrow> u32" where
  "bridge_len d device rid len =
     (if type_dev device = HID_GENERIC
      then len_rep (reports d ! report_loop (reports d) rid 0) else len)"

text \<open>A session of a device type other than \<^verbatim>\<open>HID_GENERIC\<close>, marked found, with id 0.\<close>

definition pad_dev :: bt_dev where
  "pad_dev = zero_bt_dev\<lparr>type_dev := 1, flags_dev := 1\<rparr>"

text \<open>
  The ready signal set and three items queued: a wait of 50 ms and two packets.
\<close>

definition ready_queue :: host where
  "ready_queue = host_zero\<lparr>bt_flags := 1, txq := [[0xFF, 50], [1, 2, 3], [4, 5, 6]]\<rparr>"

text \<open>
  One session marked found, with connection handle \<open>0x00B\<close> and the channel ids
  \<open>0x40\<close> to \<open>0x43\<close>; a complete frame for its HID interrupt channel; a complete
  frame on the attribute channel for a handle that no session has.
\<close>

definition one_session :: host where
  "one_session =
     host_zero\<lparr>bt_dev := (bt_dev host_zero)
       [0 := zero_bt_dev\<lparr>flags_dev := 1, acl_handle := 0x00B,
                          sdp_tx_chan := \<lparr>scid = 0x40\<rparr>, sdp_rx_chan := \<lparr>scid = 0x41\<rparr>,
                          ctrl_chan := \<lparr>scid = 0x42\<rparr>, intr_chan := \<lparr>scid = 0x43\<rparr>\<rparr>]\<rparr>"

definition hid_frame :: "u8 list" where
  "hid_frame = [0x02, 0x0B, 0x20, 0x06, 0x00, 0x02, 0x00, 0x43, 0x00, 0xA1, 0x01]"

definition att_frame :: "u8 list" where
  "att_frame = [0x02, 0x0C, 0x20, 0x07, 0x00, 0x03, 0x00, 0x04, 0x00, 0x02, 0x17, 0x00]"

text \<open>
  The packets that the statements about reassembly speak of. The payload of a
  continuation packet is what follows its H4 and ACL headers. A continuation fragment has
  the flag \<^verbatim>\<open>BT_ACL_CONT\<close> and an ACL length field equal to the payload it carries. The
  target size of a frame is its L2CAP length plus the three headers. A start fragment
  has the flag \<^verbatim>\<open>BT_ACL_START\<close>, holds the L2CAP length field and is shorter than
  the target size of its frame: the L2CAP length exceeds what the packet carries. It may
  end before the channel id of its L2CAP header, at 7 or 8 bytes.
\<close>

definition cont_payload :: "u8 list \<Rightarrow> u8 list" where
  "cont_payload c = drop (BT_HCI_H4_HDR_SIZE + BT_HCI_ACL_HDR_SIZE) c"

definition is_cont_fragment :: "u8 list \<Rightarrow> bool" where
  "is_cont_fragment c =
     (case (acl_hdr_handle c, acl_hdr_len c) of
        (Some h, Some a) \<Rightarrow> bt_acl_flags h = BT_ACL_CONT \<and> unat a = length (cont_payload c)
      | _ \<Rightarrow> False)"

definition frame_target :: "u8 list \<Rightarrow> nat" where
  "frame_target p =
     (case l2cap_hdr_len p of
        Some l \<Rightarrow> unat l + (BT_HCI_H4_HDR_SIZE + BT_HCI_ACL_HDR_SIZE + BT_L2CAP_HDR_SIZE)
      | None \<Rightarrow> 0)"

definition is_start_fragment :: "u8 list \<Rightarrow> bool" where
  "is_start_fragment p =
     (case (acl_hdr_handle p, l2cap_hdr_len p) of
        (Some h, Some l) \<Rightarrow> bt_acl_flags h = BT_ACL_START \<and> length p < frame_target p
      | _ \<Rightarrow> False)"

text \<open>
  A frame of 15 bytes for channel \<open>0x43\<close> of the example session in three fragments,
  an empty continuation, a frame of 1025 bytes in two fragments, and the frame of 15
  bytes in two fragments of which the first ends after 8 bytes, inside the L2CAP header.
\<close>

definition frag_first :: "u8 list" where
  "frag_first = [0x02, 0x0B, 0x20, 0x06, 0x00, 0x06, 0x00, 0x43, 0x00, 0xA1, 0x01]"

definition frag_mid :: "u8 list" where
  "frag_mid = [0x02, 0x0B, 0x10, 0x03, 0x00, 0x11, 0x12, 0x13]"

definition frag_last :: "u8 list" where
  "frag_last = [0x02, 0x0B, 0x10, 0x01, 0x00, 0x14]"

definition frag_empty :: "u8 list" where
  "frag_empty = [0x02, 0x0B, 0x10, 0x00, 0x00]"

definition big_first :: "u8 list" where
  "big_first = [0x02, 0x0B, 0x20, 0x04, 0x00, 0xF8, 0x03, 0x43, 0x00]"

definition big_cont :: "u8 list" where
  "big_cont = [0x02, 0x0B, 0x10, 0xF8, 0x03] @ replicate 1016 0"

definition short_first :: "u8 list" where
  "short_first = [0x02, 0x0B, 0x20, 0x03, 0x00, 0x06, 0x00, 0x43]"

definition short_cont :: "u8 list" where
  "short_cont = [0x02, 0x0B, 0x10, 0x07, 0x00, 0x00, 0xA1, 0x01, 0x11, 0x12, 0x13, 0x14]"

section \<open>Properties of the link-key store\<close>

lemma store_loop_no_match:
  "\<forall>j. i \<le> j \<and> j < LINK_KEYS_SIZE \<longrightarrow> bdaddr (ks ! j) \<noteq> a
     \<Longrightarrow> store_link_key_loop ks a i idx = idx"
proof (induction ks a i idx rule: store_link_key_loop.induct)
  case (1 ks a i idx)
  show ?case
  proof (cases "i < LINK_KEYS_SIZE")
    case True
    with "1.prems" have ne: "a \<noteq> bdaddr (ks ! i)" by auto
    have "store_link_key_loop ks a (Suc i) (if a = bdaddr (ks ! i) then of_nat i else idx) = idx"
      using "1.IH" [OF True] "1.prems" ne by auto
    with True ne show ?thesis
      by (subst store_link_key_loop.simps) simp
  next
    case False
    then show ?thesis by (subst store_link_key_loop.simps) simp
  qed
qed

lemma store_loop_last_match:
  "i \<le> j \<Longrightarrow> j < LINK_KEYS_SIZE \<Longrightarrow> bdaddr (ks ! j) = a
     \<Longrightarrow> \<forall>k. j < k \<and> k < LINK_KEYS_SIZE \<longrightarrow> bdaddr (ks ! k) \<noteq> a
     \<Longrightarrow> store_link_key_loop ks a i idx = of_nat j"
proof (induction ks a i idx rule: store_link_key_loop.induct)
  case (1 ks a i idx)
  from "1.prems" have lt: "i < LINK_KEYS_SIZE" by simp
  show ?case
  proof (cases "i = j")
    case True
    have "store_link_key_loop ks a (Suc j) (of_nat j) = of_nat j"
      by (rule store_loop_no_match) (use "1.prems" in auto)
    with True lt "1.prems" show ?thesis
      by (subst store_link_key_loop.simps) simp
  next
    case False
    with "1.prems" have "Suc i \<le> j" by simp
    from "1.IH" [OF lt this "1.prems"(2-4)]
    show ?thesis using lt
      by (subst store_link_key_loop.simps) simp
  qed
qed

lemma load_loop_no_match:
  "\<forall>j. i \<le> j \<and> j < LINK_KEYS_SIZE \<longrightarrow> bdaddr (ks ! j) \<noteq> bdaddr r
     \<Longrightarrow> load_link_key_loop ks i r ret = (r, ret)"
proof (induction ks i r ret rule: load_link_key_loop.induct)
  case (1 ks i r ret)
  show ?case
  proof (cases "i < LINK_KEYS_SIZE")
    case True
    with "1.prems" have ne: "bdaddr r \<noteq> bdaddr (ks ! i)" by auto
    have "load_link_key_loop ks (Suc i) r ret = (r, ret)"
      using "1.IH"(2) [OF True ne] "1.prems" by auto
    with True ne show ?thesis
      by (subst load_link_key_loop.simps) simp
  next
    case False
    then show ?thesis by (subst load_link_key_loop.simps) simp
  qed
qed

lemma load_loop_last_match:
  "i \<le> j \<Longrightarrow> j < LINK_KEYS_SIZE \<Longrightarrow> bdaddr (ks ! j) = bdaddr r
     \<Longrightarrow> \<forall>k. j < k \<and> k < LINK_KEYS_SIZE \<longrightarrow> bdaddr (ks ! k) \<noteq> bdaddr r
     \<Longrightarrow> load_link_key_loop ks i r ret = (r\<lparr>link_key := link_key (ks ! j)\<rparr>, 0)"
proof (induction ks i r ret rule: load_link_key_loop.induct)
  case (1 ks i r ret)
  from "1.prems" have lt: "i < LINK_KEYS_SIZE" by simp
  show ?case
  proof (cases "i = j")
    case True
    have "load_link_key_loop ks (Suc j) (r\<lparr>link_key := link_key (ks ! j)\<rparr>) 0
            = (r\<lparr>link_key := link_key (ks ! j)\<rparr>, 0)"
      by (rule load_loop_no_match) (use "1.prems" in auto)
    with True lt "1.prems" show ?thesis
      by (subst load_link_key_loop.simps) simp
  next
    case False
    with "1.prems" have le: "Suc i \<le> j" by simp
    show ?thesis
    proof (cases "bdaddr r = bdaddr (ks ! i)")
      case True
      have "load_link_key_loop ks (Suc i) (r\<lparr>link_key := link_key (ks ! i)\<rparr>) 0
              = (r\<lparr>link_key := link_key (ks ! i)\<rparr>\<lparr>link_key := link_key (ks ! j)\<rparr>, 0)"
        by (rule "1.IH"(1) [OF lt True le]) (use "1.prems" in auto)
      with lt True show ?thesis
        by (subst load_link_key_loop.simps) simp
    next
      case F2: False
      from "1.IH"(2) [OF lt F2 le "1.prems"(2-4)] lt F2 show ?thesis
        by (subst load_link_key_loop.simps) simp
    qed
  qed
qed

lemma no_later_match:
  assumes "a \<notin> set (map bdaddr (drop (Suc j) ks))" "length ks = LINK_KEYS_SIZE"
  shows "\<forall>k. j < k \<and> k < LINK_KEYS_SIZE \<longrightarrow> bdaddr (ks ! k) \<noteq> a"
proof (intro allI impI)
  fix k assume k: "j < k \<and> k < LINK_KEYS_SIZE"
  then have "drop (Suc j) ks ! (k - Suc j) = ks ! k" "k - Suc j < length (drop (Suc j) ks)"
    using assms(2) by auto
  then have "ks ! k \<in> set (drop (Suc j) ks)"
    by (metis nth_mem)
  with assms(1) show "bdaddr (ks ! k) \<noteq> a" by auto
qed

lemma no_match_at_all:
  assumes "a \<notin> set (map bdaddr ks)" "length ks = LINK_KEYS_SIZE"
  shows "\<forall>j. i \<le> j \<and> j < LINK_KEYS_SIZE \<longrightarrow> bdaddr (ks ! j) \<noteq> a"
proof (intro allI impI)
  fix j assume "i \<le> j \<and> j < LINK_KEYS_SIZE"
  with assms(2) have "ks ! j \<in> set ks" by simp
  with assms(1) show "bdaddr (ks ! j) \<noteq> a" by auto
qed

lemma last_match_exists:
  assumes "a \<in> set (map bdaddr ks)"
  shows "\<exists>j < length ks. bdaddr (ks ! j) = a \<and> a \<notin> set (map bdaddr (drop (Suc j) ks))"
proof -
  from split_list_last [OF assms] obtain ys zs
    where eq: "map bdaddr ks = ys @ a # zs" and nz: "a \<notin> set zs" by blast
  have lt: "length ys < length ks"
    using arg_cong [OF eq, of length] by simp
  have "map bdaddr ks ! length ys = a" by (simp add: eq)
  with lt have 1: "bdaddr (ks ! length ys) = a" by simp
  have "drop (Suc (length ys)) (map bdaddr ks) = zs" by (simp add: eq)
  then have 2: "map bdaddr (drop (Suc (length ys)) ks) = zs" by (simp add: drop_map)
  from lt 1 2 nz show ?thesis by auto
qed

lemma of_nat_eq_cursor:
  "j < LINK_KEYS_SIZE \<Longrightarrow> ((of_nat j :: u32) = c) = (j = unat c)"
  by (auto simp: LINK_KEYS_SIZE_def unat_of_nat)

lemma cursor_advance: "unat (((c::u32) + 1) AND 0xF) = (unat c + 1) mod 16"
proof -
  have "(c + 1) AND 0xF = (c + 1) AND mask 4" by (simp add: mask_eq_exp_minus_1)
  also have "unat \<dots> = unat (c + 1) mod 2 ^ 4"
    by (simp add: take_bit_eq_mod unat_mod flip: take_bit_eq_mask)
  also have "\<dots> = (unat c + 1) mod 16"
    by (simp add: unat_word_ariths mod_mod_cancel)
  finally show ?thesis .
qed

lemma store_keys_match:
  assumes "length (link_keys (keys s)) = LINK_KEYS_SIZE" "j < LINK_KEYS_SIZE"
    "bdaddr (link_keys (keys s) ! j) = bdaddr n"
    "bdaddr n \<notin> set (map bdaddr (drop (Suc j) (link_keys (keys s))))"
  shows "map_option (keys \<circ> fst) (bt_host_store_link_key f s n) =
          Some (if j = unat (index (keys s))
                then (keys s)\<lparr>link_keys := (link_keys (keys s))[j := n],
                               index := (index (keys s) + 1) AND 0xF\<rparr>
                else (keys s)\<lparr>link_keys := (link_keys (keys s))[j := n]\<rparr>)"
proof -
  have loop: "store_link_key_loop (link_keys (keys s)) (bdaddr n) 0 (index (keys s)) = of_nat j"
    using no_later_match [OF assms(4,1)] assms(2,3)
    by (intro store_loop_last_match) auto
  have u: "unat (of_nat j :: u32) = j"
    using assms(2) by (simp add: LINK_KEYS_SIZE_def unat_of_nat)
  show ?thesis
    using assms(2) of_nat_eq_cursor [OF assms(2), of "index (keys s)"]
    by (simp add: bt_host_store_link_key_def loop u Let_def bt_host_store_keys_on_file_def
        split: prod.splits)
qed

lemma store_keys_new:
  assumes "length (link_keys (keys s)) = LINK_KEYS_SIZE"
    "unat (index (keys s)) < LINK_KEYS_SIZE"
    "bdaddr n \<notin> set (map bdaddr (link_keys (keys s)))"
  shows "map_option (keys \<circ> fst) (bt_host_store_link_key f s n) =
          Some ((keys s)\<lparr>link_keys := (link_keys (keys s))[unat (index (keys s)) := n],
                         index := (index (keys s) + 1) AND 0xF\<rparr>)"
proof -
  have loop: "store_link_key_loop (link_keys (keys s)) (bdaddr n) 0 (index (keys s))
                = index (keys s)"
    using no_match_at_all [OF assms(3,1)]
    by (intro store_loop_no_match) auto
  show ?thesis
    using assms(2)
    by (simp add: bt_host_store_link_key_def loop Let_def bt_host_store_keys_on_file_def
        split: prod.splits)
qed

lemma store_SomeD:
  assumes "bt_host_store_link_key f s n = Some (s1, r1)"
  defines "idx \<equiv> store_link_key_loop (link_keys (keys s)) (bdaddr n) 0 (index (keys s))"
  shows "unat idx < LINK_KEYS_SIZE"
    and "link_keys (keys s1) = (link_keys (keys s))[unat idx := n]"
    and "index (keys s1) = (if idx = index (keys s) then (index (keys s) + 1) AND 0xF
                            else index (keys s))"
  using assms
  by (auto simp: bt_host_store_link_key_def Let_def bt_host_store_keys_on_file_def
      split: if_splits prod.splits)

lemma store_loop_cases:
  fixes a :: bt_addr_t and c :: u32
  assumes len: "length ks = LINK_KEYS_SIZE"
  defines "idx \<equiv> store_link_key_loop ks a 0 c"
  shows "(a \<notin> set (map bdaddr ks) \<and> idx = c) \<or>
         (unat idx < LINK_KEYS_SIZE \<and> idx = of_nat (unat idx) \<and> bdaddr (ks ! unat idx) = a \<and>
          a \<notin> set (map bdaddr (drop (Suc (unat idx)) ks)))"
proof (cases "a \<in> set (map bdaddr ks)")
  case False
  then have "idx = c"
    unfolding idx_def using no_match_at_all [OF False len]
    by (intro store_loop_no_match) auto
  with False show ?thesis by simp
next
  case True
  from last_match_exists [OF True] obtain j where j: "j < length ks" "bdaddr (ks ! j) = a"
    "a \<notin> set (map bdaddr (drop (Suc j) ks))" by blast
  have "idx = of_nat j"
    unfolding idx_def using no_later_match [OF j(3) len] j(1,2) len
    by (intro store_loop_last_match) auto
  moreover have "unat (of_nat j :: u32) = j"
    using j(1) len by (simp add: LINK_KEYS_SIZE_def unat_of_nat)
  ultimately show ?thesis using j len by simp
qed

lemma store_twice_keys:
  assumes len: "length (link_keys (keys s)) = LINK_KEYS_SIZE"
    and st: "bt_host_store_link_key f s n = Some (s1, r1)"
  shows "map_option (keys \<circ> fst) (bt_host_store_link_key f' s1 n) = Some (keys s1)"
    and "\<exists>i<LINK_KEYS_SIZE. link_keys (keys s1) ! i = n"
proof -
  let ?ks = "link_keys (keys s)" and ?c = "index (keys s)"
  define idx where "idx = store_link_key_loop ?ks (bdaddr n) 0 ?c"
  note D = store_SomeD [OF st, folded idx_def]
  have len1: "length (link_keys (keys s1)) = LINK_KEYS_SIZE"
    using D(2) len by simp
  have at: "link_keys (keys s1) ! unat idx = n"
    using D(1,2) len by simp
  with D(1) show "\<exists>i<LINK_KEYS_SIZE. link_keys (keys s1) ! i = n" by blast
  have later: "bdaddr n \<notin> set (map bdaddr (drop (Suc (unat idx)) ?ks))"
    using store_loop_cases [OF len, of "bdaddr n" ?c, folded idx_def]
    by (auto dest: in_set_dropD)
  have drop_eq: "drop (Suc (unat idx)) (link_keys (keys s1)) = drop (Suc (unat idx)) ?ks"
    by (simp add: D(2))
  have ne: "unat idx \<noteq> unat (index (keys s1))"
  proof (cases "idx = ?c")
    case True
    then have "unat (index (keys s1)) = (unat ?c + 1) mod 16"
      by (simp add: D(3) cursor_advance)
    moreover have "unat ?c < 16" using D(1) True by (simp add: LINK_KEYS_SIZE_def)
    ultimately show ?thesis using True by (auto simp: mod_Suc)
  next
    case False
    then show ?thesis by (simp add: D(3) word_unat_eq_iff)
  qed
  have "map_option (keys \<circ> fst) (bt_host_store_link_key f' s1 n) =
          Some ((keys s1)\<lparr>link_keys := (link_keys (keys s1))[unat idx := n]\<rparr>)"
    using store_keys_match [OF len1 D(1), of n f'] at later ne
    by (simp add: drop_eq)
  moreover have "(link_keys (keys s1))[unat idx := n] = link_keys (keys s1)"
    by (simp add: D(2))
  ultimately show "map_option (keys \<circ> fst) (bt_host_store_link_key f' s1 n) = Some (keys s1)"
    by simp
qed

text \<open>
  Claim C3, as amended. On a ring of 16 records, \<^verbatim>\<open>bt_host_store_link_key\<close>
  behaves as follows. If a record with the same address exists, \<open>j\<close> being the last
  such position, and \<open>j\<close> is not the insertion cursor, the record at \<open>j\<close> is
  overwritten in place and the cursor does not advance. If no record has that address
  and the cursor is inside the ring, the record is written at the cursor and the cursor
  advances by one modulo 16. Storing the same record twice in a row: the second store
  leaves the ring and the cursor exactly as the first store left them, the record being
  in the ring.
\<close>

theorem store_link_key_ring:
  assumes len: "length (link_keys (keys s)) = LINK_KEYS_SIZE"
  shows
    "(\<forall>j. j < LINK_KEYS_SIZE \<and> bdaddr (link_keys (keys s) ! j) = bdaddr n \<and>
          bdaddr n \<notin> set (map bdaddr (drop (Suc j) (link_keys (keys s)))) \<and>
          j \<noteq> unat (index (keys s)) \<longrightarrow>
        map_option (keys \<circ> fst) (bt_host_store_link_key f s n) =
          Some ((keys s)\<lparr>link_keys := (link_keys (keys s))[j := n]\<rparr>)) \<and>
     (bdaddr n \<notin> set (map bdaddr (link_keys (keys s))) \<and>
        unat (index (keys s)) < LINK_KEYS_SIZE \<longrightarrow>
        map_option (keys \<circ> fst) (bt_host_store_link_key f s n) =
          Some ((keys s)\<lparr>link_keys := (link_keys (keys s))[unat (index (keys s)) := n],
                         index := (index (keys s) + 1) AND 0xF\<rparr>) \<and>
        unat ((index (keys s) + 1) AND 0xF) = (unat (index (keys s)) + 1) mod 16) \<and>
     (\<forall>s1 r1. bt_host_store_link_key f s n = Some (s1, r1) \<longrightarrow>
        map_option (keys \<circ> fst) (bt_host_store_link_key f' s1 n) = Some (keys s1) \<and>
        (\<exists>i<LINK_KEYS_SIZE. link_keys (keys s1) ! i = n))"
proof (intro conjI allI impI)
  fix j
  assume "j < LINK_KEYS_SIZE \<and> bdaddr (link_keys (keys s) ! j) = bdaddr n \<and>
          bdaddr n \<notin> set (map bdaddr (drop (Suc j) (link_keys (keys s)))) \<and>
          j \<noteq> unat (index (keys s))"
  then show "map_option (keys \<circ> fst) (bt_host_store_link_key f s n) =
          Some ((keys s)\<lparr>link_keys := (link_keys (keys s))[j := n]\<rparr>)"
    using store_keys_match [OF len, of j n f] by simp
next
  assume "bdaddr n \<notin> set (map bdaddr (link_keys (keys s))) \<and>
        unat (index (keys s)) < LINK_KEYS_SIZE"
  then show "map_option (keys \<circ> fst) (bt_host_store_link_key f s n) =
          Some ((keys s)\<lparr>link_keys := (link_keys (keys s))[unat (index (keys s)) := n],
                         index := (index (keys s) + 1) AND 0xF\<rparr>)"
    using store_keys_new [OF len, of n f] by simp
next
  show "unat ((index (keys s) + 1) AND 0xF) = (unat (index (keys s)) + 1) mod 16"
    by (rule cursor_advance)
next
  fix s1 r1 assume "bt_host_store_link_key f s n = Some (s1, r1)"
  from store_twice_keys [OF len this]
  show "map_option (keys \<circ> fst) (bt_host_store_link_key f' s1 n) = Some (keys s1)"
    "\<exists>i<LINK_KEYS_SIZE. link_keys (keys s1) ! i = n" by auto
qed

lemma store_then_load:
  assumes len: "length (link_keys (keys s)) = LINK_KEYS_SIZE"
    and st: "bt_host_store_link_key f s n = Some (s1, r1)"
    and a: "bdaddr r = bdaddr n"
  shows "bt_host_load_link_key s1 r = (r\<lparr>link_key := link_key n\<rparr>, 0)"
proof -
  let ?ks = "link_keys (keys s)" and ?c = "index (keys s)"
  define idx where "idx = store_link_key_loop ?ks (bdaddr n) 0 ?c"
  note D = store_SomeD [OF st, folded idx_def]
  have len1: "length (link_keys (keys s1)) = LINK_KEYS_SIZE"
    using D(2) len by simp
  have at: "link_keys (keys s1) ! unat idx = n"
    using D(1,2) len by simp
  have later: "bdaddr n \<notin> set (map bdaddr (drop (Suc (unat idx)) ?ks))"
    using store_loop_cases [OF len, of "bdaddr n" ?c, folded idx_def]
    by (auto dest: in_set_dropD)
  have drop_eq: "drop (Suc (unat idx)) (link_keys (keys s1)) = drop (Suc (unat idx)) ?ks"
    by (simp add: D(2))
  have "load_link_key_loop (link_keys (keys s1)) 0 r (- 1) =
          (r\<lparr>link_key := link_key (link_keys (keys s1) ! unat idx)\<rparr>, 0)"
    using no_later_match [OF _ len1, of "bdaddr r" "unat idx"] later D(1) at a
    by (intro load_loop_last_match) (auto simp: drop_eq)
  then show ?thesis by (simp add: bt_host_load_link_key_def at)
qed

lemma store_total:
  assumes len: "length (link_keys (keys s)) = LINK_KEYS_SIZE"
    and c: "unat (index (keys s)) < LINK_KEYS_SIZE"
  shows "\<exists>s1 r1. bt_host_store_link_key f s n = Some (s1, r1) \<and>
           length (link_keys (keys s1)) = LINK_KEYS_SIZE \<and>
           unat (index (keys s1)) < LINK_KEYS_SIZE"
proof -
  let ?ks = "link_keys (keys s)" and ?c = "index (keys s)"
  define idx where "idx = store_link_key_loop ?ks (bdaddr n) 0 ?c"
  have lt: "unat idx < LINK_KEYS_SIZE"
    using store_loop_cases [OF len, of "bdaddr n" ?c, folded idx_def] c by auto
  have "unat ((?c + 1) AND 0xF) < LINK_KEYS_SIZE"
    by (simp add: cursor_advance LINK_KEYS_SIZE_def)
  with lt c len show ?thesis
    by (simp add: bt_host_store_link_key_def Let_def bt_host_store_keys_on_file_def
        flip: idx_def split: prod.splits)
qed

lemma store_addrs:
  assumes "bt_host_store_link_key f s n = Some (s1, r1)"
  shows "set (map bdaddr (link_keys (keys s1)))
           \<subseteq> insert (bdaddr n) (set (map bdaddr (link_keys (keys s))))"
proof -
  have "map bdaddr (xs[i := n]) = (map bdaddr xs)[i := bdaddr n]"
    for xs :: "bt_hci_evt_link_key_notify list" and i
    by (rule map_update)
  then show ?thesis
    using store_SomeD(2) [OF assms] set_update_subset_insert [of "map bdaddr (link_keys (keys s))"]
    by simp
qed

lemma store_seq_addrs:
  assumes "length (link_keys (keys s)) = LINK_KEYS_SIZE"
    and "unat (index (keys s)) < LINK_KEYS_SIZE"
  shows "\<exists>s'. store_link_key_seq s cs = Some s' \<and>
           length (link_keys (keys s')) = LINK_KEYS_SIZE \<and>
           unat (index (keys s')) < LINK_KEYS_SIZE \<and>
           set (map bdaddr (link_keys (keys s')))
             \<subseteq> set (map bdaddr (link_keys (keys s))) \<union> set (map (\<lambda>c. bdaddr (snd c)) cs)"
  using assms
proof (induction cs arbitrary: s)
  case Nil
  then show ?case by simp
next
  case (Cons c cs)
  from store_total [OF Cons.prems, of "fst c" "snd c"] obtain s1 r1
    where 1: "bt_host_store_link_key (fst c) s (snd c) = Some (s1, r1)"
      and len1: "length (link_keys (keys s1)) = LINK_KEYS_SIZE"
      and c1: "unat (index (keys s1)) < LINK_KEYS_SIZE" by blast
  from Cons.IH [OF len1 c1] obtain s' where
    2: "store_link_key_seq s1 cs = Some s'"
    and len': "length (link_keys (keys s')) = LINK_KEYS_SIZE"
    and c': "unat (index (keys s')) < LINK_KEYS_SIZE"
    and sub: "set (map bdaddr (link_keys (keys s')))
             \<subseteq> set (map bdaddr (link_keys (keys s1))) \<union> set (map (\<lambda>c. bdaddr (snd c)) cs)"
    by blast
  from sub store_addrs [OF 1]
  have "set (map bdaddr (link_keys (keys s')))
          \<subseteq> set (map bdaddr (link_keys (keys s))) \<union> set (map (\<lambda>c. bdaddr (snd c)) (c # cs))"
    by auto
  with 1 2 len' c' show ?case by simp
qed

lemma store_seq_snoc:
  "store_link_key_seq s (cs @ [c]) =
     (case store_link_key_seq s cs of
        None \<Rightarrow> None
      | Some s1 \<Rightarrow> map_option fst (bt_host_store_link_key (fst c) s1 (snd c)))"
  by (induction cs arbitrary: s) (auto split: option.splits)

lemma key_store_init_addrs:
  "length (link_keys (keys key_store_init)) = LINK_KEYS_SIZE"
  "unat (index (keys key_store_init)) < LINK_KEYS_SIZE"
  "set (map bdaddr (link_keys (keys key_store_init))) = {0}"
  by (simp_all add: key_store_init_def LINK_KEYS_SIZE_def zero_link_key_def)

text \<open>
  Claim C6, as amended. \<^verbatim>\<open>bt_host_load_link_key\<close> on a ring of 16 records: for an
  address that no record of the ring holds it returns \<open>-1\<close> and leaves the reply, and
  so the output key, as it was; when records hold the address, the key of the last of
  them in scan order is the one returned, with return value 0; and after a store of the
  address followed by a store of the same address with a new key, the lookup returns the
  new key. Every sequence of stores on the ring of program start goes through, and on
  the ring that it leaves the lookup of an address that is not the all-zero address and
  was stored by none of them returns \<open>-1\<close> and leaves the reply as it was, while the
  lookup of the address stored last returns the key stored last.
\<close>

theorem load_link_key_lookup:
  assumes len: "length (link_keys (keys s)) = LINK_KEYS_SIZE"
  shows
    "(bdaddr r \<notin> set (map bdaddr (link_keys (keys s))) \<longrightarrow>
        bt_host_load_link_key s r = (r, - 1)) \<and>
     (\<forall>j. j < LINK_KEYS_SIZE \<and> bdaddr (link_keys (keys s) ! j) = bdaddr r \<and>
          bdaddr r \<notin> set (map bdaddr (drop (Suc j) (link_keys (keys s)))) \<longrightarrow>
        bt_host_load_link_key s r = (r\<lparr>link_key := link_key (link_keys (keys s) ! j)\<rparr>, 0)) \<and>
     (unat (index (keys s)) < LINK_KEYS_SIZE \<and> bdaddr n1 = bdaddr r \<and> bdaddr n2 = bdaddr r \<longrightarrow>
        (\<exists>s1 r1 s2 r2. bt_host_store_link_key f1 s n1 = Some (s1, r1) \<and>
           bt_host_store_link_key f2 s1 n2 = Some (s2, r2) \<and>
           bt_host_load_link_key s2 r = (r\<lparr>link_key := link_key n2\<rparr>, 0))) \<and>
     (\<exists>s'. store_link_key_seq key_store_init cs = Some s' \<and>
        (bdaddr r \<noteq> 0 \<and> bdaddr r \<notin> set (map (\<lambda>c. bdaddr (snd c)) cs) \<longrightarrow>
           bt_host_load_link_key s' r = (r, - 1)) \<and>
        (cs \<noteq> [] \<and> bdaddr r = bdaddr (snd (last cs)) \<longrightarrow>
           bt_host_load_link_key s' r = (r\<lparr>link_key := link_key (snd (last cs))\<rparr>, 0)))"
proof -
  have absent: "bt_host_load_link_key t r = (r, - 1)"
    if "bdaddr r \<notin> set (map bdaddr (link_keys (keys t)))"
      and "length (link_keys (keys t)) = LINK_KEYS_SIZE" for t
    using no_match_at_all [OF that, of 0]
    unfolding bt_host_load_link_key_def by (intro load_loop_no_match) auto
  have A: "bdaddr r \<notin> set (map bdaddr (link_keys (keys s))) \<longrightarrow>
        bt_host_load_link_key s r = (r, - 1)"
    using absent [OF _ len] by blast
  have B: "\<forall>j. j < LINK_KEYS_SIZE \<and> bdaddr (link_keys (keys s) ! j) = bdaddr r \<and>
          bdaddr r \<notin> set (map bdaddr (drop (Suc j) (link_keys (keys s)))) \<longrightarrow>
        bt_host_load_link_key s r = (r\<lparr>link_key := link_key (link_keys (keys s) ! j)\<rparr>, 0)"
  proof (intro allI impI)
    fix j
    assume j: "j < LINK_KEYS_SIZE \<and> bdaddr (link_keys (keys s) ! j) = bdaddr r \<and>
          bdaddr r \<notin> set (map bdaddr (drop (Suc j) (link_keys (keys s))))"
    then have "\<forall>k. j < k \<and> k < LINK_KEYS_SIZE \<longrightarrow> bdaddr (link_keys (keys s) ! k) \<noteq> bdaddr r"
      using no_later_match [OF _ len] by blast
    with j show "bt_host_load_link_key s r =
        (r\<lparr>link_key := link_key (link_keys (keys s) ! j)\<rparr>, 0)"
      unfolding bt_host_load_link_key_def by (intro load_loop_last_match) auto
  qed
  have C: "unat (index (keys s)) < LINK_KEYS_SIZE \<and> bdaddr n1 = bdaddr r \<and> bdaddr n2 = bdaddr r \<longrightarrow>
        (\<exists>s1 r1 s2 r2. bt_host_store_link_key f1 s n1 = Some (s1, r1) \<and>
           bt_host_store_link_key f2 s1 n2 = Some (s2, r2) \<and>
           bt_host_load_link_key s2 r = (r\<lparr>link_key := link_key n2\<rparr>, 0))"
  proof
    assume h: "unat (index (keys s)) < LINK_KEYS_SIZE \<and> bdaddr n1 = bdaddr r \<and> bdaddr n2 = bdaddr r"
    from store_total [OF len, of f1 n1] h obtain s1 r1
      where 1: "bt_host_store_link_key f1 s n1 = Some (s1, r1)"
        and len1: "length (link_keys (keys s1)) = LINK_KEYS_SIZE"
        and c1: "unat (index (keys s1)) < LINK_KEYS_SIZE" by blast
    from store_total [OF len1 c1, of f2 n2] obtain s2 r2
      where 2: "bt_host_store_link_key f2 s1 n2 = Some (s2, r2)" by blast
    from store_then_load [OF len1 2, of r] h
    have "bt_host_load_link_key s2 r = (r\<lparr>link_key := link_key n2\<rparr>, 0)" by simp
    with 1 2 show "\<exists>s1 r1 s2 r2. bt_host_store_link_key f1 s n1 = Some (s1, r1) \<and>
             bt_host_store_link_key f2 s1 n2 = Some (s2, r2) \<and>
             bt_host_load_link_key s2 r = (r\<lparr>link_key := link_key n2\<rparr>, 0)" by blast
  qed
  have D: "\<exists>s'. store_link_key_seq key_store_init cs = Some s' \<and>
        (bdaddr r \<noteq> 0 \<and> bdaddr r \<notin> set (map (\<lambda>c. bdaddr (snd c)) cs) \<longrightarrow>
           bt_host_load_link_key s' r = (r, - 1)) \<and>
        (cs \<noteq> [] \<and> bdaddr r = bdaddr (snd (last cs)) \<longrightarrow>
           bt_host_load_link_key s' r = (r\<lparr>link_key := link_key (snd (last cs))\<rparr>, 0))"
  proof -
    from store_seq_addrs [OF key_store_init_addrs(1,2), of cs] obtain s' where
      run: "store_link_key_seq key_store_init cs = Some s'"
      and len': "length (link_keys (keys s')) = LINK_KEYS_SIZE"
      and sub: "set (map bdaddr (link_keys (keys s')))
             \<subseteq> {0} \<union> set (map (\<lambda>c. bdaddr (snd c)) cs)"
      unfolding key_store_init_addrs(3) by blast
    have never: "bdaddr r \<noteq> 0 \<and> bdaddr r \<notin> set (map (\<lambda>c. bdaddr (snd c)) cs) \<longrightarrow>
           bt_host_load_link_key s' r = (r, - 1)"
    proof
      assume "bdaddr r \<noteq> 0 \<and> bdaddr r \<notin> set (map (\<lambda>c. bdaddr (snd c)) cs)"
      with sub have "bdaddr r \<notin> set (map bdaddr (link_keys (keys s')))" by blast
      then show "bt_host_load_link_key s' r = (r, - 1)" by (rule absent [OF _ len'])
    qed
    have latest: "cs \<noteq> [] \<and> bdaddr r = bdaddr (snd (last cs)) \<longrightarrow>
           bt_host_load_link_key s' r = (r\<lparr>link_key := link_key (snd (last cs))\<rparr>, 0)"
    proof
      assume h: "cs \<noteq> [] \<and> bdaddr r = bdaddr (snd (last cs))"
      then have split: "cs = butlast cs @ [last cs]" by simp
      from store_seq_addrs [OF key_store_init_addrs(1,2), of "butlast cs"] obtain s0 where
        run0: "store_link_key_seq key_store_init (butlast cs) = Some s0"
        and len0: "length (link_keys (keys s0)) = LINK_KEYS_SIZE"
        and c0: "unat (index (keys s0)) < LINK_KEYS_SIZE" by blast
      from store_total [OF len0 c0, of "fst (last cs)" "snd (last cs)"] obtain s1 r1
        where st: "bt_host_store_link_key (fst (last cs)) s0 (snd (last cs)) = Some (s1, r1)"
        by blast
      have "store_link_key_seq key_store_init (butlast cs @ [last cs]) = Some s1"
        by (simp add: store_seq_snoc run0 st)
      with split run have "s' = s1" by simp
      with store_then_load [OF len0 st, of r] h
      show "bt_host_load_link_key s' r = (r\<lparr>link_key := link_key (snd (last cs))\<rparr>, 0)"
        by simp
    qed
    from run never latest show ?thesis by blast
  qed
  from A B C D show ?thesis by (intro conjI)
qed

lemma ring_of_sixteen_len: "length (link_keys (keys ring_of_sixteen)) = LINK_KEYS_SIZE"
  by (simp add: ring_of_sixteen_def LINK_KEYS_SIZE_def)

text \<open>
  The full ring is what sixteen stores of the addresses 1 to 16 make of the ring at
  program start.
\<close>

lemma ring_of_sixteen_reachable:
  "map_option keys
     (fold (\<lambda>a so. Option.bind so (\<lambda>s. map_option fst
              (bt_host_store_link_key True s \<lparr>bdaddr = a, link_key = 0, key_type = 0\<rparr>)))
        [1, 2, 3, 4, 5, 6, 7, 8, 9, 10, 11, 12, 13, 14, 15, 16] (Some key_store_init))
   = Some (keys ring_of_sixteen)"
  by code_simp

text \<open>
  Against C3 as first stated: on the full ring the record of address 1 is at position 0,
  where the cursor is, and storing address 1 again advances the cursor to 1.
\<close>

theorem store_link_key_cursor_counterexample:
  "bdaddr (link_keys (keys ring_of_sixteen) ! 0) = 1 \<and>
   index (keys ring_of_sixteen) = 0 \<and>
   map_option (index \<circ> keys \<circ> fst)
     (bt_host_store_link_key True ring_of_sixteen \<lparr>bdaddr = 1, link_key = 7, key_type = 0\<rparr>)
     = Some 1"
proof -
  have "map_option (keys \<circ> fst)
     (bt_host_store_link_key True ring_of_sixteen \<lparr>bdaddr = 1, link_key = 7, key_type = 0\<rparr>)
     = Some ((keys ring_of_sixteen)\<lparr>link_keys := (link_keys (keys ring_of_sixteen))
          [0 := \<lparr>bdaddr = 1, link_key = 7, key_type = 0\<rparr>], index := 1\<rparr>)"
    using store_keys_match [OF ring_of_sixteen_len, of 0 "\<lparr>bdaddr = 1, link_key = 7, key_type = 0\<rparr>" True]
    by (simp add: ring_of_sixteen_def LINK_KEYS_SIZE_def)
  then show ?thesis
    by (auto simp: ring_of_sixteen_def)
qed

text \<open>The three cases of C3 on the full ring.\<close>

theorem store_link_key_ring_witness:
  "map_option (keys \<circ> fst)
     (bt_host_store_link_key True ring_of_sixteen \<lparr>bdaddr = 5, link_key = 9, key_type = 0\<rparr>)
     = Some ((keys ring_of_sixteen)\<lparr>link_keys := (link_keys (keys ring_of_sixteen))
          [4 := \<lparr>bdaddr = 5, link_key = 9, key_type = 0\<rparr>]\<rparr>) \<and>
   map_option (keys \<circ> fst)
     (bt_host_store_link_key True ring_of_sixteen \<lparr>bdaddr = 99, link_key = 9, key_type = 0\<rparr>)
     = Some ((keys ring_of_sixteen)\<lparr>link_keys := (link_keys (keys ring_of_sixteen))
          [0 := \<lparr>bdaddr = 99, link_key = 9, key_type = 0\<rparr>], index := 1\<rparr>) \<and>
   (\<exists>s1 r1. bt_host_store_link_key True ring_of_sixteen \<lparr>bdaddr = 99, link_key = 9, key_type = 0\<rparr>
        = Some (s1, r1) \<and>
      map_option (keys \<circ> fst)
        (bt_host_store_link_key True s1 \<lparr>bdaddr = 99, link_key = 9, key_type = 0\<rparr>)
        = Some (keys s1))"
proof -
  let ?n5 = "\<lparr>bdaddr = 5, link_key = 9, key_type = 0\<rparr> :: bt_hci_evt_link_key_notify"
  let ?n99 = "\<lparr>bdaddr = 99, link_key = 9, key_type = 0\<rparr> :: bt_hci_evt_link_key_notify"
  note A = store_link_key_ring [OF ring_of_sixteen_len, of ?n5 True True]
  note B = store_link_key_ring [OF ring_of_sixteen_len, of ?n99 True True]
  from A [THEN conjunct1, THEN spec, of 4]
  have 1: "map_option (keys \<circ> fst) (bt_host_store_link_key True ring_of_sixteen ?n5)
     = Some ((keys ring_of_sixteen)\<lparr>link_keys := (link_keys (keys ring_of_sixteen))[4 := ?n5]\<rparr>)"
    by (simp add: ring_of_sixteen_def LINK_KEYS_SIZE_def)
  from B [THEN conjunct2, THEN conjunct1]
  have 2: "map_option (keys \<circ> fst) (bt_host_store_link_key True ring_of_sixteen ?n99)
     = Some ((keys ring_of_sixteen)\<lparr>link_keys := (link_keys (keys ring_of_sixteen))[0 := ?n99],
          index := 1\<rparr>)"
    by (simp add: ring_of_sixteen_def LINK_KEYS_SIZE_def)
  then obtain s1 r1 where 3: "bt_host_store_link_key True ring_of_sixteen ?n99 = Some (s1, r1)"
    by (cases "bt_host_store_link_key True ring_of_sixteen ?n99") auto
  from B [THEN conjunct2, THEN conjunct2, THEN spec, THEN spec, THEN mp, OF 3]
  have "map_option (keys \<circ> fst) (bt_host_store_link_key True s1 ?n99) = Some (keys s1)"
    by simp
  with 1 2 3 show ?thesis by blast
qed

text \<open>
  Against C6 as first stated: the all-zero address has never been stored, at program
  start and after one store of address 5, and its lookup returns 0 and replaces the
  output key by the all-zero key of a slot never written.
\<close>

theorem load_link_key_zero_counterexample:
  "bt_host_load_link_key key_store_init \<lparr>bdaddr = 0, link_key = 3\<rparr>
     = (\<lparr>bdaddr = 0, link_key = 0\<rparr>, 0) \<and>
   map_option (\<lambda>s. bt_host_load_link_key s \<lparr>bdaddr = 0, link_key = 3\<rparr>)
     (store_link_key_seq key_store_init [(True, \<lparr>bdaddr = 5, link_key = 9, key_type = 0\<rparr>)])
     = Some (\<lparr>bdaddr = 0, link_key = 0\<rparr>, 0)"
  by code_simp

text \<open>
  The cases of C6: three on the full ring, and the ring that two stores make of the
  ring of program start.
\<close>

theorem load_link_key_lookup_witness:
  "bt_host_load_link_key ring_of_sixteen \<lparr>bdaddr = 99, link_key = 3\<rparr>
     = (\<lparr>bdaddr = 99, link_key = 3\<rparr>, - 1) \<and>
   bt_host_load_link_key
     (ring_of_sixteen\<lparr>keys := (keys ring_of_sixteen)\<lparr>link_keys :=
        (link_keys (keys ring_of_sixteen))[2 := \<lparr>bdaddr = 9, link_key = 21, key_type = 0\<rparr>,
                                           8 := \<lparr>bdaddr = 9, link_key = 22, key_type = 0\<rparr>]\<rparr>\<rparr>)
     \<lparr>bdaddr = 9, link_key = 3\<rparr>
     = (\<lparr>bdaddr = 9, link_key = 22\<rparr>, 0) \<and>
   (\<exists>s1 r1 s2 r2.
      bt_host_store_link_key True ring_of_sixteen \<lparr>bdaddr = 99, link_key = 41, key_type = 0\<rparr>
        = Some (s1, r1) \<and>
      bt_host_store_link_key True s1 \<lparr>bdaddr = 99, link_key = 42, key_type = 0\<rparr> = Some (s2, r2) \<and>
      bt_host_load_link_key s2 \<lparr>bdaddr = 99, link_key = 3\<rparr> = (\<lparr>bdaddr = 99, link_key = 42\<rparr>, 0)) \<and>
   (\<exists>s'. store_link_key_seq key_store_init
            [(True, \<lparr>bdaddr = 5, link_key = 9, key_type = 0\<rparr>),
             (False, \<lparr>bdaddr = 7, link_key = 8, key_type = 0\<rparr>)] = Some s' \<and>
      bt_host_load_link_key s' \<lparr>bdaddr = 99, link_key = 3\<rparr> = (\<lparr>bdaddr = 99, link_key = 3\<rparr>, - 1)) \<and>
   (\<exists>s'. store_link_key_seq key_store_init
            [(True, \<lparr>bdaddr = 5, link_key = 9, key_type = 0\<rparr>),
             (False, \<lparr>bdaddr = 7, link_key = 8, key_type = 0\<rparr>)] = Some s' \<and>
      bt_host_load_link_key s' \<lparr>bdaddr = 7, link_key = 3\<rparr> = (\<lparr>bdaddr = 7, link_key = 8\<rparr>, 0))"
proof -
  let ?r = "\<lparr>bdaddr = 99, link_key = 3\<rparr> :: bt_hci_cp_link_key_reply"
  let ?r9 = "\<lparr>bdaddr = 9, link_key = 3\<rparr> :: bt_hci_cp_link_key_reply"
  let ?n1 = "\<lparr>bdaddr = 99, link_key = 41, key_type = 0\<rparr> :: bt_hci_evt_link_key_notify"
  let ?n2 = "\<lparr>bdaddr = 99, link_key = 42, key_type = 0\<rparr> :: bt_hci_evt_link_key_notify"
  let ?cs = "[(True, \<lparr>bdaddr = 5, link_key = 9, key_type = 0\<rparr>),
              (False, \<lparr>bdaddr = 7, link_key = 8, key_type = 0\<rparr>)]
             :: (bool \<times> bt_hci_evt_link_key_notify) list"
  let ?dup = "ring_of_sixteen\<lparr>keys := (keys ring_of_sixteen)\<lparr>link_keys :=
        (link_keys (keys ring_of_sixteen))[2 := \<lparr>bdaddr = 9, link_key = 21, key_type = 0\<rparr>,
                                           8 := \<lparr>bdaddr = 9, link_key = 22, key_type = 0\<rparr>]\<rparr>\<rparr>"
  have len2: "length (link_keys (keys ?dup)) = LINK_KEYS_SIZE"
    by (simp add: ring_of_sixteen_def LINK_KEYS_SIZE_def)
  note A = load_link_key_lookup [OF ring_of_sixteen_len, of ?r ?n1 ?n2 True True ?cs]
  note B = load_link_key_lookup [OF len2, of ?r9 ?n1 ?n2 True True ?cs]
  from A [THEN conjunct1]
  have 1: "bt_host_load_link_key ring_of_sixteen ?r = (?r, - 1)"
    by (simp add: ring_of_sixteen_def)
  from B [THEN conjunct2, THEN conjunct1, THEN spec, of 8]
  have 2: "bt_host_load_link_key ?dup ?r9 = (\<lparr>bdaddr = 9, link_key = 22\<rparr>, 0)"
    by (simp add: ring_of_sixteen_def LINK_KEYS_SIZE_def)
  from A [THEN conjunct2, THEN conjunct2, THEN conjunct1]
  have 3: "\<exists>s1 r1 s2 r2.
      bt_host_store_link_key True ring_of_sixteen ?n1 = Some (s1, r1) \<and>
      bt_host_store_link_key True s1 ?n2 = Some (s2, r2) \<and>
      bt_host_load_link_key s2 ?r = (\<lparr>bdaddr = 99, link_key = 42\<rparr>, 0)"
    by (simp add: ring_of_sixteen_def LINK_KEYS_SIZE_def)
  from A [THEN conjunct2, THEN conjunct2, THEN conjunct2]
  have 4: "\<exists>s'. store_link_key_seq key_store_init ?cs = Some s' \<and>
      bt_host_load_link_key s' ?r = (?r, - 1)"
    by auto
  let ?r7 = "\<lparr>bdaddr = 7, link_key = 3\<rparr> :: bt_hci_cp_link_key_reply"
  from load_link_key_lookup [OF ring_of_sixteen_len, of ?r7 ?n1 ?n2 True True ?cs,
      THEN conjunct2, THEN conjunct2, THEN conjunct2]
  have 5: "\<exists>s'. store_link_key_seq key_store_init ?cs = Some s' \<and>
      bt_host_load_link_key s' ?r7 = (\<lparr>bdaddr = 7, link_key = 8\<rparr>, 0)"
    by auto
  from 1 2 3 4 5 show ?thesis by (intro conjI)
qed

section \<open>Properties of the device session table\<close>

lemma bt_dev_loop_Some:
  "bt_dev_loop test devs i0 = Some i \<longleftrightarrow>
     i0 \<le> i \<and> i < BT_DEV_MAX \<and> test (devs ! i) \<and> (\<forall>j. i0 \<le> j \<and> j < i \<longrightarrow> \<not> test (devs ! j))"
proof (induction test devs i0 rule: bt_dev_loop.induct)
  case (1 test devs i0)
  show ?case
  proof (cases "i0 < BT_DEV_MAX")
    case False
    then show ?thesis by (subst bt_dev_loop.simps) auto
  next
    case lt: True
    show ?thesis
    proof (cases "test (devs ! i0)")
      case True
      have "bt_dev_loop test devs i0 = Some i0"
        using lt True by (subst bt_dev_loop.simps) simp
      moreover have "i0 = i" if "i0 \<le> i" "\<forall>j. i0 \<le> j \<and> j < i \<longrightarrow> \<not> test (devs ! j)"
        using that True by (meson le_neq_implies_less order_refl)
      ultimately show ?thesis using lt True by auto
    next
      case False
      have "bt_dev_loop test devs i0 = bt_dev_loop test devs (Suc i0)"
        using lt False by (subst bt_dev_loop.simps) simp
      moreover have "(\<forall>j. i0 \<le> j \<and> j < i \<longrightarrow> \<not> test (devs ! j)) \<and> i0 \<le> i \<and> test (devs ! i)
           \<longleftrightarrow> (\<forall>j. Suc i0 \<le> j \<and> j < i \<longrightarrow> \<not> test (devs ! j)) \<and> Suc i0 \<le> i \<and> test (devs ! i)"
        using False by (metis Suc_leD Suc_le_eq le_neq_implies_less not_less_eq_eq)
      ultimately show ?thesis using "1.IH" [OF lt False] by auto
    qed
  qed
qed

lemma bt_dev_loop_None:
  "bt_dev_loop test devs i0 = None \<longleftrightarrow> (\<forall>j. i0 \<le> j \<and> j < BT_DEV_MAX \<longrightarrow> \<not> test (devs ! j))"
proof (induction test devs i0 rule: bt_dev_loop.induct)
  case (1 test devs i0)
  show ?case
  proof (cases "i0 < BT_DEV_MAX")
    case False
    then show ?thesis by (subst bt_dev_loop.simps) auto
  next
    case lt: True
    show ?thesis
    proof (cases "test (devs ! i0)")
      case True
      have "bt_dev_loop test devs i0 = Some i0"
        using lt True by (subst bt_dev_loop.simps) simp
      then show ?thesis using lt True by auto
    next
      case False
      have "bt_dev_loop test devs i0 = bt_dev_loop test devs (Suc i0)"
        using lt False by (subst bt_dev_loop.simps) simp
      moreover have "(\<forall>j. i0 \<le> j \<and> j < BT_DEV_MAX \<longrightarrow> \<not> test (devs ! j))
           \<longleftrightarrow> (\<forall>j. Suc i0 \<le> j \<and> j < BT_DEV_MAX \<longrightarrow> \<not> test (devs ! j))"
        using False by (metis Suc_leD Suc_le_eq le_neq_implies_less)
      ultimately show ?thesis using "1.IH" [OF lt False] by auto
    qed
  qed
qed

lemma zero_not_found: "\<not> atomic_test_bit (flags_dev zero_bt_dev) b"
  by (simp add: atomic_test_bit_def zero_bt_dev_def)

lemma reset_dev_slot:
  assumes len: "length (bt_dev s) = BT_DEV_MAX" and i: "i < BT_DEV_MAX"
    and k: "index_of (id_dev (bt_dev s ! i)) (length (bt_adapter_data s)) = Some k"
  shows "bt_host_reset_dev s (Dev i) =
           Some (s\<lparr>bt_adapter_data := (bt_adapter_data s)[k := zero_bt_data (bt_adapter_data s ! k)],
                   bt_dev := (bt_dev s)[i := zero_bt_dev]\<rparr>,
                 [Adapter_init_buffer (id_dev (bt_dev s ! i))])"
  using i k by (simp add: bt_host_reset_dev_def deref_def Let_def)

text \<open>
  Claim C7. On the table of 7 sessions: when \<^verbatim>\<open>bt_host_get_new_dev\<close> returns a slot,
  that slot is not marked found and every slot before it is, so it is the first slot not
  marked and never a slot marked active; it returns none exactly when all 7 slots are
  marked. \<^verbatim>\<open>bt_host_reset_dev\<close> on slot \<open>i\<close> leaves every field of the session 0,
  and every field of the generic-adapter data that the session's id names 0, each byte
  of its two buffers and each entry of its report table included, the arrays keeping
  their sizes; and \<^verbatim>\<open>bt_host_get_new_dev\<close> right after returns a slot no later than
  \<open>i\<close>: slot \<open>i\<close> itself when all slots before it are marked.
\<close>

theorem get_new_dev_first_free:
  assumes len: "length (bt_dev s) = BT_DEV_MAX"
  shows
    "(\<forall>i. bt_host_get_new_dev s = Some i \<longrightarrow>
        i < BT_DEV_MAX \<and> \<not> atomic_test_bit (flags_dev (bt_dev s ! i)) BT_DEV_DEVICE_FOUND \<and>
        (\<forall>j<i. atomic_test_bit (flags_dev (bt_dev s ! j)) BT_DEV_DEVICE_FOUND)) \<and>
     (bt_host_get_new_dev s = None \<longleftrightarrow>
        (\<forall>j<BT_DEV_MAX. atomic_test_bit (flags_dev (bt_dev s ! j)) BT_DEV_DEVICE_FOUND)) \<and>
     (\<forall>i k. i < BT_DEV_MAX \<and>
          index_of (id_dev (bt_dev s ! i)) (length (bt_adapter_data s)) = Some k \<longrightarrow>
        (\<exists>s' calls. bt_host_reset_dev s (Dev i) = Some (s', calls) \<and>
           bt_dev s' ! i =
             \<lparr>id_dev = 0, flags_dev = 0, remote_bdaddr = 0, type_dev = 0, acl_handle = 0,
              sdp_tx_chan = \<lparr>scid = 0\<rparr>, sdp_rx_chan = \<lparr>scid = 0\<rparr>,
              ctrl_chan = \<lparr>scid = 0\<rparr>, intr_chan = \<lparr>scid = 0\<rparr>\<rparr> \<and>
           bt_adapter_data s' ! k =
             \<lparr>flags = 0,
              output_buf = replicate (length (output_buf (bt_adapter_data s ! k))) 0,
              dev_id = 0, dev_type = 0, report_cnt = 0, report_id = 0, report_type = 0,
              input_buf = replicate (length (input_buf (bt_adapter_data s ! k))) 0,
              reports = replicate (length (reports (bt_adapter_data s ! k)))
                          \<lparr>id_rep = 0, len_rep = 0\<rparr>\<rparr> \<and>
           (\<exists>j. j \<le> i \<and> bt_host_get_new_dev s' = Some j) \<and>
           ((\<forall>j<i. atomic_test_bit (flags_dev (bt_dev s ! j)) BT_DEV_DEVICE_FOUND) \<longrightarrow>
              bt_host_get_new_dev s' = Some i)))"
proof -
  have A: "i < BT_DEV_MAX \<and> \<not> atomic_test_bit (flags_dev (bt_dev s ! i)) BT_DEV_DEVICE_FOUND \<and>
        (\<forall>j<i. atomic_test_bit (flags_dev (bt_dev s ! j)) BT_DEV_DEVICE_FOUND)"
    if "bt_host_get_new_dev s = Some i" for i
    using that by (simp add: bt_host_get_new_dev_def bt_dev_loop_Some)
  have B: "bt_host_get_new_dev s = None \<longleftrightarrow>
        (\<forall>j<BT_DEV_MAX. atomic_test_bit (flags_dev (bt_dev s ! j)) BT_DEV_DEVICE_FOUND)"
    by (simp add: bt_host_get_new_dev_def bt_dev_loop_None)
  have C: "\<exists>s' calls. bt_host_reset_dev s (Dev i) = Some (s', calls) \<and>
           bt_dev s' ! i =
             \<lparr>id_dev = 0, flags_dev = 0, remote_bdaddr = 0, type_dev = 0, acl_handle = 0,
              sdp_tx_chan = \<lparr>scid = 0\<rparr>, sdp_rx_chan = \<lparr>scid = 0\<rparr>,
              ctrl_chan = \<lparr>scid = 0\<rparr>, intr_chan = \<lparr>scid = 0\<rparr>\<rparr> \<and>
           bt_adapter_data s' ! k =
             \<lparr>flags = 0,
              output_buf = replicate (length (output_buf (bt_adapter_data s ! k))) 0,
              dev_id = 0, dev_type = 0, report_cnt = 0, report_id = 0, report_type = 0,
              input_buf = replicate (length (input_buf (bt_adapter_data s ! k))) 0,
              reports = replicate (length (reports (bt_adapter_data s ! k)))
                          \<lparr>id_rep = 0, len_rep = 0\<rparr>\<rparr> \<and>
           (\<exists>j. j \<le> i \<and> bt_host_get_new_dev s' = Some j) \<and>
           ((\<forall>j<i. atomic_test_bit (flags_dev (bt_dev s ! j)) BT_DEV_DEVICE_FOUND) \<longrightarrow>
              bt_host_get_new_dev s' = Some i)"
    if h: "i < BT_DEV_MAX \<and>
          index_of (id_dev (bt_dev s ! i)) (length (bt_adapter_data s)) = Some k" for i k
  proof -
    define s' where "s' = s\<lparr>bt_adapter_data :=
         (bt_adapter_data s)[k := zero_bt_data (bt_adapter_data s ! k)],
       bt_dev := (bt_dev s)[i := zero_bt_dev]\<rparr>"
    have r: "bt_host_reset_dev s (Dev i) = Some (s', [Adapter_init_buffer (id_dev (bt_dev s ! i))])"
      using reset_dev_slot [OF len, of i k] h by (simp add: s'_def)
    have k: "k < length (bt_adapter_data s)"
      using h by (auto simp: index_of_def split: if_splits)
    have z0: "bt_dev s' ! i = zero_bt_dev" using h len by (simp add: s'_def)
    then have z: "bt_dev s' ! i =
             \<lparr>id_dev = 0, flags_dev = 0, remote_bdaddr = 0, type_dev = 0, acl_handle = 0,
              sdp_tx_chan = \<lparr>scid = 0\<rparr>, sdp_rx_chan = \<lparr>scid = 0\<rparr>,
              ctrl_chan = \<lparr>scid = 0\<rparr>, intr_chan = \<lparr>scid = 0\<rparr>\<rparr>"
      by (simp add: zero_bt_dev_def)
    have a: "bt_adapter_data s' ! k =
             \<lparr>flags = 0,
              output_buf = replicate (length (output_buf (bt_adapter_data s ! k))) 0,
              dev_id = 0, dev_type = 0, report_cnt = 0, report_id = 0, report_type = 0,
              input_buf = replicate (length (input_buf (bt_adapter_data s ! k))) 0,
              reports = replicate (length (reports (bt_adapter_data s ! k)))
                          \<lparr>id_rep = 0, len_rep = 0\<rparr>\<rparr>"
      using k by (simp add: s'_def zero_bt_data_def)
    have other: "bt_dev s' ! j = bt_dev s ! j" if "j \<noteq> i" for j
      using that by (simp add: s'_def)
    have nf: "\<not> atomic_test_bit (flags_dev (bt_dev s' ! i)) BT_DEV_DEVICE_FOUND"
      by (simp add: z0 zero_not_found)
    have "bt_host_get_new_dev s' \<noteq> None"
      using nf h by (auto simp: bt_host_get_new_dev_def bt_dev_loop_None)
    then obtain j where j: "bt_host_get_new_dev s' = Some j" by blast
    then have "\<forall>j'<j. atomic_test_bit (flags_dev (bt_dev s' ! j')) BT_DEV_DEVICE_FOUND"
      by (simp add: bt_host_get_new_dev_def bt_dev_loop_Some)
    with nf have "j \<le> i" by (meson not_le_imp_less)
    with j have e: "\<exists>j. j \<le> i \<and> bt_host_get_new_dev s' = Some j" by blast
    have f: "(\<forall>j<i. atomic_test_bit (flags_dev (bt_dev s ! j)) BT_DEV_DEVICE_FOUND) \<longrightarrow>
              bt_host_get_new_dev s' = Some i"
      using nf h other by (auto simp: bt_host_get_new_dev_def bt_dev_loop_Some)
    show ?thesis
      by (rule exI [of _ s'], rule exI, rule conjI [OF r], rule conjI [OF z],
          rule conjI [OF a], rule conjI [OF e], rule f)
  qed
  from A B C show ?thesis by blast
qed

lemma full_table_found:
  "j < 7 \<Longrightarrow> atomic_test_bit (flags_dev (bt_dev full_table ! j)) BT_DEV_DEVICE_FOUND"
proof -
  assume "j < 7"
  then have "j \<in> {0, 1, 2, 3, 4, 5, 6}" by auto
  then show ?thesis
    by (auto simp: full_table_def host_zero_def atomic_test_bit_def BT_DEV_DEVICE_FOUND_def)
qed

text \<open>
  On the full table nothing is free; resetting slot 2 leaves the session and its
  generic-adapter data, which were in use, all 0 and makes slot 2 the one returned.
\<close>

theorem get_new_dev_first_free_witness:
  "bt_host_get_new_dev full_table = None \<and>
   report_cnt (bt_adapter_data full_table ! 2) = 5 \<and>
   (\<exists>s' calls. bt_host_reset_dev full_table (Dev 2) = Some (s', calls) \<and>
      bt_dev s' ! 2 =
        \<lparr>id_dev = 0, flags_dev = 0, remote_bdaddr = 0, type_dev = 0, acl_handle = 0,
         sdp_tx_chan = \<lparr>scid = 0\<rparr>, sdp_rx_chan = \<lparr>scid = 0\<rparr>,
         ctrl_chan = \<lparr>scid = 0\<rparr>, intr_chan = \<lparr>scid = 0\<rparr>\<rparr> \<and>
      bt_adapter_data s' ! 2 =
        \<lparr>flags = 0, output_buf = replicate 128 0, dev_id = 0, dev_type = 0, report_cnt = 0,
         report_id = 0, report_type = 0, input_buf = replicate 128 0,
         reports = replicate 4 \<lparr>id_rep = 0, len_rep = 0\<rparr>\<rparr> \<and>
      bt_host_get_new_dev s' = Some 2) \<and>
   bt_host_get_new_dev (full_table\<lparr>bt_dev := (bt_dev full_table)[4 := zero_bt_dev]\<rparr>) = Some 4"
proof -
  have len: "length (bt_dev full_table) = BT_DEV_MAX"
    by (simp add: full_table_def BT_DEV_MAX_def)
  note T = get_new_dev_first_free [OF len]
  from T [THEN conjunct2, THEN conjunct1]
  have 1: "bt_host_get_new_dev full_table = None"
    by (simp add: BT_DEV_MAX_def full_table_found)
  have d: "bt_adapter_data full_table ! 2 =
      \<lparr>flags = 1, output_buf = replicate 128 7, dev_id = 3, dev_type = 1,
       report_cnt = 5, report_id = 1, report_type = 2, input_buf = replicate 128 9,
       reports = replicate 4 \<lparr>id_rep = 1, len_rep = 8\<rparr>\<rparr>"
    by (simp add: full_table_def host_zero_def)
  have "index_of (id_dev (bt_dev full_table ! 2)) (length (bt_adapter_data full_table)) = Some 2"
    by (simp add: full_table_def host_zero_def index_of_def)
  with T [THEN conjunct2, THEN conjunct2, THEN spec, THEN spec, of 2 2]
  have 2: "\<exists>s' calls. bt_host_reset_dev full_table (Dev 2) = Some (s', calls) \<and>
      bt_dev s' ! 2 =
        \<lparr>id_dev = 0, flags_dev = 0, remote_bdaddr = 0, type_dev = 0, acl_handle = 0,
         sdp_tx_chan = \<lparr>scid = 0\<rparr>, sdp_rx_chan = \<lparr>scid = 0\<rparr>,
         ctrl_chan = \<lparr>scid = 0\<rparr>, intr_chan = \<lparr>scid = 0\<rparr>\<rparr> \<and>
      bt_adapter_data s' ! 2 =
        \<lparr>flags = 0, output_buf = replicate 128 0, dev_id = 0, dev_type = 0, report_cnt = 0,
         report_id = 0, report_type = 0, input_buf = replicate 128 0,
         reports = replicate 4 \<lparr>id_rep = 0, len_rep = 0\<rparr>\<rparr> \<and>
      bt_host_get_new_dev s' = Some 2"
    by (auto simp: BT_DEV_MAX_def full_table_found d)
  let ?t = "full_table\<lparr>bt_dev := (bt_dev full_table)[4 := zero_bt_dev]\<rparr>"
  have len4: "length (bt_dev ?t) = BT_DEV_MAX"
    by (simp add: full_table_def BT_DEV_MAX_def)
  have "bt_host_get_new_dev ?t \<noteq> None"
    using get_new_dev_first_free [OF len4, THEN conjunct2, THEN conjunct1]
    by (auto simp: BT_DEV_MAX_def zero_not_found full_table_def intro!: exI [of _ 4])
  then obtain i where i: "bt_host_get_new_dev ?t = Some i" by blast
  from get_new_dev_first_free [OF len4, THEN conjunct1, THEN spec, THEN mp, OF i]
  have p: "\<not> atomic_test_bit (flags_dev (bt_dev ?t ! i)) BT_DEV_DEVICE_FOUND" "i < 7"
    and q: "\<forall>j<i. atomic_test_bit (flags_dev (bt_dev ?t ! j)) BT_DEV_DEVICE_FOUND"
    by (simp_all add: BT_DEV_MAX_def)
  have "i = 4"
  proof (rule ccontr)
    assume ne: "i \<noteq> 4"
    then have "bt_dev ?t ! i = bt_dev full_table ! i" by simp
    with p full_table_found [of i] show False by simp
  qed
  with i 1 2 d show ?thesis by simp
qed

section \<open>Properties of the bridge\<close>

lemma index_of_less: "index_of i n = Some k \<Longrightarrow> k < n"
  by (auto simp: index_of_def split: if_splits)

lemma bridge_discard:
  assumes "index_of (id_dev device) (length (bt_adapter_data s)) = Some k"
    and "type_dev device = HID_GENERIC"
    and "report_loop (reports (bt_adapter_data s ! k)) rid 0 = length (reports (bt_adapter_data s ! k))"
  shows "bt_host_bridge ab s device rid data len = Some (s, [])"
  using assms by (simp add: bt_host_bridge_def Let_def)

lemma bridge_d1_fields [simp]:
  "report_cnt (bridge_d1 d device rid) = report_cnt d"
  "flags (bridge_d1 d device rid) = flags d"
  "reports (bridge_d1 d device rid) = reports d"
  "input_buf (bridge_d1 d device rid) = input_buf d"
  by (simp_all add: bridge_d1_def)

lemma bridge_skip:
  assumes "index_of (id_dev device) (length (bt_adapter_data s)) = Some k"
    and "type_dev device = HID_GENERIC \<longrightarrow>
         report_loop (reports (bt_adapter_data s ! k)) rid 0 \<noteq> length (reports (bt_adapter_data s ! k))"
    and "\<not> atomic_test_bit (flags (bt_adapter_data s ! k)) BT_INIT"
    and "\<not> 1 < report_cnt (bt_adapter_data s ! k)"
  shows "bt_host_bridge ab s device rid data len =
           Some (s\<lparr>bt_adapter_data := (bt_adapter_data s)
                    [k := (bridge_d1 (bt_adapter_data s ! k) device rid)
                            \<lparr>report_cnt := report_cnt (bt_adapter_data s ! k) + 1\<rparr>]\<rparr>, [])"
proof (cases "type_dev device = HID_GENERIC")
  case True
  with assms show ?thesis
    by (simp add: bt_host_bridge_def Let_def bridge_d1_def)
next
  case False
  with assms show ?thesis
    by (simp add: bt_host_bridge_def Let_def bridge_d1_def)
qed

lemma bridge_invoke:
  assumes "index_of (id_dev device) (length (bt_adapter_data s)) = Some k"
    and "type_dev device = HID_GENERIC \<longrightarrow>
         report_loop (reports (bt_adapter_data s ! k)) rid 0 \<noteq> length (reports (bt_adapter_data s ! k))"
    and "atomic_test_bit (flags (bt_adapter_data s ! k)) BT_INIT \<or>
         1 < report_cnt (bt_adapter_data s ! k)"
    and "memcpy (input_buf (bt_adapter_data s ! k)) 0 data
           (unat (bridge_len (bt_adapter_data s ! k) device rid len)) = Some buf"
  shows "bt_host_bridge ab s device rid data len =
           Some (s\<lparr>bt_adapter_data := (bt_adapter_data s)
                    [k := (ab ((bridge_d1 (bt_adapter_data s ! k) device rid)
                                 \<lparr>report_id := rid, dev_id := id_dev device,
                                  dev_type := type_dev device, input_buf := buf\<rparr>))
                          \<lparr>report_cnt :=
                             report_cnt (ab ((bridge_d1 (bt_adapter_data s ! k) device rid)
                                 \<lparr>report_id := rid, dev_id := id_dev device,
                                  dev_type := type_dev device, input_buf := buf\<rparr>)) + 1\<rparr>]\<rparr>,
                 [Adapter_bridge k])"
proof (cases "type_dev device = HID_GENERIC")
  case True
  with assms show ?thesis
    by (simp add: bt_host_bridge_def Let_def bridge_d1_def bridge_len_def)
next
  case False
  with assms show ?thesis
    by (simp add: bt_host_bridge_def Let_def bridge_d1_def bridge_len_def)
qed

text \<open>
  Claim C2, as amended. For a call that is not discarded (the device type is not
  \<^verbatim>\<open>HID_GENERIC\<close>, or the report id is in the table) and whose payload fits the input
  buffer: when \<^verbatim>\<open>bt_host_bridge\<close> is called with the report counter at 0 and the
  session not marked initialized, \<^verbatim>\<open>adapter_bridge\<close> is not called and the counter
  becomes 1; called again, counter at 1 and still not initialized, \<^verbatim>\<open>adapter_bridge\<close>
  is again not called and the counter becomes 2; on the third call, counter at 2,
  \<^verbatim>\<open>adapter_bridge\<close> is called, the counter being greater than one.
\<close>

theorem bridge_first_reports:
  assumes k: "index_of (id_dev device) (length (bt_adapter_data s)) = Some k"
    and known: "type_dev device = HID_GENERIC \<longrightarrow>
         report_loop (reports (bt_adapter_data s ! k)) rid 0 \<noteq> length (reports (bt_adapter_data s ! k))"
    and uninit: "\<not> atomic_test_bit (flags (bt_adapter_data s ! k)) BT_INIT"
    and zero: "report_cnt (bt_adapter_data s ! k) = 0"
    and fits: "memcpy (input_buf (bt_adapter_data s ! k)) 0 data
           (unat (bridge_len (bt_adapter_data s ! k) device rid len)) = Some buf"
  shows "\<exists>s1 s2 s3.
           bt_host_bridge ab s device rid data len = Some (s1, []) \<and>
           report_cnt (bt_adapter_data s1 ! k) = 1 \<and>
           \<not> atomic_test_bit (flags (bt_adapter_data s1 ! k)) BT_INIT \<and>
           bt_host_bridge ab s1 device rid data len = Some (s2, []) \<and>
           report_cnt (bt_adapter_data s2 ! k) = 2 \<and>
           \<not> atomic_test_bit (flags (bt_adapter_data s2 ! k)) BT_INIT \<and>
           bt_host_bridge ab s2 device rid data len = Some (s3, [Adapter_bridge k])"
proof -
  let ?d = "bt_adapter_data s ! k"
  have kl: "k < length (bt_adapter_data s)" by (rule index_of_less [OF k])
  define d1 where "d1 = (bridge_d1 ?d device rid)\<lparr>report_cnt := report_cnt ?d + 1\<rparr>"
  define s1 where "s1 = s\<lparr>bt_adapter_data := (bt_adapter_data s)[k := d1]\<rparr>"
  have le0: "\<not> 1 < report_cnt ?d" by (simp add: zero)
  have b1: "bt_host_bridge ab s device rid data len = Some (s1, [])"
    unfolding s1_def d1_def by (rule bridge_skip [OF k known uninit le0])
  have n1: "bt_adapter_data s1 ! k = d1" using kl by (simp add: s1_def)
  have c1: "report_cnt d1 = 1" "flags d1 = flags ?d" "reports d1 = reports ?d"
    "input_buf d1 = input_buf ?d"
    by (simp_all add: d1_def zero)
  have k1: "index_of (id_dev device) (length (bt_adapter_data s1)) = Some k"
    using k by (simp add: s1_def)
  have known1: "type_dev device = HID_GENERIC \<longrightarrow>
         report_loop (reports (bt_adapter_data s1 ! k)) rid 0 \<noteq> length (reports (bt_adapter_data s1 ! k))"
    using known by (simp add: n1 c1)
  have u1: "\<not> atomic_test_bit (flags (bt_adapter_data s1 ! k)) BT_INIT"
    using uninit by (simp add: n1 c1)
  have le1: "\<not> 1 < report_cnt (bt_adapter_data s1 ! k)" by (simp add: n1 c1)
  define d2 where "d2 = (bridge_d1 d1 device rid)\<lparr>report_cnt := report_cnt d1 + 1\<rparr>"
  define s2 where "s2 = s1\<lparr>bt_adapter_data := (bt_adapter_data s1)[k := d2]\<rparr>"
  have b2: "bt_host_bridge ab s1 device rid data len = Some (s2, [])"
    using bridge_skip [OF k1 known1 u1 le1, of ab data len] by (simp add: s2_def d2_def n1)
  have kl1: "k < length (bt_adapter_data s1)" by (rule index_of_less [OF k1])
  have n2: "bt_adapter_data s2 ! k = d2" using kl1 by (simp add: s2_def)
  have c2: "report_cnt d2 = 2" "flags d2 = flags ?d" "reports d2 = reports ?d"
    "input_buf d2 = input_buf ?d"
    by (simp_all add: d2_def c1)
  have k2: "index_of (id_dev device) (length (bt_adapter_data s2)) = Some k"
    using k1 by (simp add: s2_def)
  have known2: "type_dev device = HID_GENERIC \<longrightarrow>
         report_loop (reports (bt_adapter_data s2 ! k)) rid 0 \<noteq> length (reports (bt_adapter_data s2 ! k))"
    using known by (simp add: n2 c2)
  have u2: "\<not> atomic_test_bit (flags (bt_adapter_data s2 ! k)) BT_INIT"
    using uninit by (simp add: n2 c2)
  have gt2: "atomic_test_bit (flags (bt_adapter_data s2 ! k)) BT_INIT \<or>
         1 < report_cnt (bt_adapter_data s2 ! k)" by (simp add: n2 c2)
  have fits2: "memcpy (input_buf (bt_adapter_data s2 ! k)) 0 data
           (unat (bridge_len (bt_adapter_data s2 ! k) device rid len)) = Some buf"
  proof -
    have "bridge_len d2 device rid len = bridge_len ?d device rid len"
      by (simp add: bridge_len_def c2)
    with fits show ?thesis by (simp add: n2 c2)
  qed
  from bridge_invoke [OF k2 known2 gt2 fits2, of ab] obtain s3
    where b3: "bt_host_bridge ab s2 device rid data len = Some (s3, [Adapter_bridge k])"
    by blast
  show ?thesis
  proof (intro exI conjI)
    show "bt_host_bridge ab s device rid data len = Some (s1, [])" by (rule b1)
    show "report_cnt (bt_adapter_data s1 ! k) = 1" by (simp add: n1 c1)
    show "\<not> atomic_test_bit (flags (bt_adapter_data s1 ! k)) BT_INIT" by (rule u1)
    show "bt_host_bridge ab s1 device rid data len = Some (s2, [])" by (rule b2)
    show "report_cnt (bt_adapter_data s2 ! k) = 2" by (simp add: n2 c2)
    show "\<not> atomic_test_bit (flags (bt_adapter_data s2 ! k)) BT_INIT" by (rule u2)
    show "bt_host_bridge ab s2 device rid data len = Some (s3, [Adapter_bridge k])" by (rule b3)
  qed
qed

text \<open>Three calls for a session of the zeroed state.\<close>

theorem bridge_first_reports_witness:
  "\<exists>s1 s2 s3.
     bt_host_bridge (\<lambda>d. d) host_zero pad_dev 1 [1, 2, 3] 3 = Some (s1, []) \<and>
     report_cnt (bt_adapter_data s1 ! 0) = 1 \<and>
     \<not> atomic_test_bit (flags (bt_adapter_data s1 ! 0)) BT_INIT \<and>
     bt_host_bridge (\<lambda>d. d) s1 pad_dev 1 [1, 2, 3] 3 = Some (s2, []) \<and>
     report_cnt (bt_adapter_data s2 ! 0) = 2 \<and>
     \<not> atomic_test_bit (flags (bt_adapter_data s2 ! 0)) BT_INIT \<and>
     bt_host_bridge (\<lambda>d. d) s2 pad_dev 1 [1, 2, 3] 3 = Some (s3, [Adapter_bridge 0])"
proof -
  have k: "index_of (id_dev pad_dev) (length (bt_adapter_data host_zero)) = Some 0"
    by (simp add: pad_dev_def zero_bt_dev_def host_zero_def index_of_def)
  have known: "type_dev pad_dev = HID_GENERIC \<longrightarrow>
      report_loop (reports (bt_adapter_data host_zero ! 0)) 1 0
        \<noteq> length (reports (bt_adapter_data host_zero ! 0))"
    by (simp add: pad_dev_def HID_GENERIC_def)
  have uninit: "\<not> atomic_test_bit (flags (bt_adapter_data host_zero ! 0)) BT_INIT"
    by (simp add: host_zero_def atomic_test_bit_def)
  have zero: "report_cnt (bt_adapter_data host_zero ! 0) = 0"
    by (simp add: host_zero_def)
  have fits: "memcpy (input_buf (bt_adapter_data host_zero ! 0)) 0 [1, 2, 3]
           (unat (bridge_len (bt_adapter_data host_zero ! 0) pad_dev 1 3))
         = Some ([1, 2, 3] @ replicate 125 0)"
    by (simp add: pad_dev_def HID_GENERIC_def host_zero_def memcpy_def bridge_len_def)
  from bridge_first_reports [OF k known uninit zero fits, of "\<lambda>d. d"]
  show ?thesis .
qed

text \<open>
  Against C2 as first stated: with the counter at 1 and the session not initialized, the
  call makes no call of \<^verbatim>\<open>adapter_bridge\<close>.
\<close>

theorem bridge_second_report_counterexample:
  "report_cnt (bt_adapter_data
      (host_zero\<lparr>bt_adapter_data :=
         (bt_adapter_data host_zero)[0 := (bt_adapter_data host_zero ! 0)\<lparr>report_cnt := 1\<rparr>]\<rparr>) ! 0) = 1 \<and>
   \<not> atomic_test_bit (flags (bt_adapter_data
      (host_zero\<lparr>bt_adapter_data :=
         (bt_adapter_data host_zero)[0 := (bt_adapter_data host_zero ! 0)\<lparr>report_cnt := 1\<rparr>]\<rparr>) ! 0)) BT_INIT \<and>
   map_option snd
     (bt_host_bridge (\<lambda>d. d)
        (host_zero\<lparr>bt_adapter_data :=
           (bt_adapter_data host_zero)[0 := (bt_adapter_data host_zero ! 0)\<lparr>report_cnt := 1\<rparr>]\<rparr>)
        pad_dev 1 [1, 2, 3] 3) = Some []"
  by (simp add: host_zero_def pad_dev_def zero_bt_dev_def bt_host_bridge_def index_of_def
      HID_GENERIC_def atomic_test_bit_def Let_def)

lemma report_loop_end:
  "i \<le> length reps \<Longrightarrow>
   report_loop reps rid i = length reps \<longleftrightarrow>
     (\<forall>j. i \<le> j \<and> j < length reps \<longrightarrow> id_rep (reps ! j) \<noteq> rid)"
proof (induction reps rid i rule: report_loop.induct)
  case (1 reps rid i)
  show ?case
  proof (cases "i < length reps")
    case False
    with "1.prems" show ?thesis by (subst report_loop.simps) auto
  next
    case lt: True
    show ?thesis
    proof (cases "id_rep (reps ! i) = rid")
      case True
      have "report_loop reps rid i = i" using lt True by (subst report_loop.simps) simp
      with lt True show ?thesis by auto
    next
      case False
      have "report_loop reps rid i = report_loop reps rid (Suc i)"
        using lt False by (subst report_loop.simps) simp
      moreover have "(\<forall>j. i \<le> j \<and> j < length reps \<longrightarrow> id_rep (reps ! j) \<noteq> rid)
           \<longleftrightarrow> (\<forall>j. Suc i \<le> j \<and> j < length reps \<longrightarrow> id_rep (reps ! j) \<noteq> rid)"
        using False by (metis Suc_leD Suc_le_eq le_neq_implies_less)
      ultimately show ?thesis using "1.IH" [OF lt False] lt by simp
    qed
  qed
qed

lemma report_loop_unknown:
  "report_loop reps rid 0 = length reps \<longleftrightarrow> rid \<notin> set (map id_rep reps)"
proof -
  have "(\<forall>j. j < length reps \<longrightarrow> id_rep (reps ! j) \<noteq> rid) \<longleftrightarrow> rid \<notin> set (map id_rep reps)"
  proof
    assume a: "\<forall>j. j < length reps \<longrightarrow> id_rep (reps ! j) \<noteq> rid"
    show "rid \<notin> set (map id_rep reps)"
    proof
      assume "rid \<in> set (map id_rep reps)"
      then obtain r where "r \<in> set reps" "id_rep r = rid" by auto
      then obtain j where "j < length reps" "reps ! j = r" by (auto simp: in_set_conv_nth)
      with a \<open>id_rep r = rid\<close> show False by auto
    qed
  next
    assume "rid \<notin> set (map id_rep reps)"
    then show "\<forall>j. j < length reps \<longrightarrow> id_rep (reps ! j) \<noteq> rid"
      by (metis image_eqI nth_mem set_map)
  qed
  with report_loop_end [of 0 reps rid] show ?thesis by simp
qed

text \<open>
  Claim C8, as amended. A call of \<^verbatim>\<open>bt_host_bridge\<close> for a device of type
  \<^verbatim>\<open>HID_GENERIC\<close> whose report id is not in the report table is discarded: the
  state, and so the report counter, is left as it was. Every other call increments the
  32-bit report counter of the session by exactly one, whether \<^verbatim>\<open>adapter_bridge\<close> is
  called (the session is initialized or the counter is above 1, the payload fits the
  input buffer, and \<^verbatim>\<open>adapter_bridge\<close> leaves the counter alone) or not.
\<close>

theorem bridge_report_cnt:
  assumes k: "index_of (id_dev device) (length (bt_adapter_data s)) = Some k"
  shows
    "(type_dev device = HID_GENERIC \<and> rid \<notin> set (map id_rep (reports (bt_adapter_data s ! k))) \<longrightarrow>
        bt_host_bridge ab s device rid data len = Some (s, [])) \<and>
     ((type_dev device = HID_GENERIC \<longrightarrow> rid \<in> set (map id_rep (reports (bt_adapter_data s ! k)))) \<and>
      \<not> atomic_test_bit (flags (bt_adapter_data s ! k)) BT_INIT \<and>
      \<not> 1 < report_cnt (bt_adapter_data s ! k) \<longrightarrow>
        (\<exists>s'. bt_host_bridge ab s device rid data len = Some (s', []) \<and>
           report_cnt (bt_adapter_data s' ! k) = report_cnt (bt_adapter_data s ! k) + 1)) \<and>
     ((type_dev device = HID_GENERIC \<longrightarrow> rid \<in> set (map id_rep (reports (bt_adapter_data s ! k)))) \<and>
      (atomic_test_bit (flags (bt_adapter_data s ! k)) BT_INIT \<or>
       1 < report_cnt (bt_adapter_data s ! k)) \<and>
      memcpy (input_buf (bt_adapter_data s ! k)) 0 data
        (unat (bridge_len (bt_adapter_data s ! k) device rid len)) = Some buf \<and>
      (\<forall>x. report_cnt (ab x) = report_cnt x) \<longrightarrow>
        (\<exists>s'. bt_host_bridge ab s device rid data len = Some (s', [Adapter_bridge k]) \<and>
           report_cnt (bt_adapter_data s' ! k) = report_cnt (bt_adapter_data s ! k) + 1))"
proof -
  let ?d = "bt_adapter_data s ! k"
  have kl: "k < length (bt_adapter_data s)" by (rule index_of_less [OF k])
  have A: "bt_host_bridge ab s device rid data len = Some (s, [])"
    if "type_dev device = HID_GENERIC \<and> rid \<notin> set (map id_rep (reports ?d))"
    using that bridge_discard [OF k, of rid ab data len] report_loop_unknown [of "reports ?d" rid]
    by simp
  have B: "\<exists>s'. bt_host_bridge ab s device rid data len = Some (s', []) \<and>
           report_cnt (bt_adapter_data s' ! k) = report_cnt ?d + 1"
    if h: "(type_dev device = HID_GENERIC \<longrightarrow> rid \<in> set (map id_rep (reports ?d))) \<and>
      \<not> atomic_test_bit (flags ?d) BT_INIT \<and> \<not> 1 < report_cnt ?d"
  proof -
    from h have known: "type_dev device = HID_GENERIC \<longrightarrow>
         report_loop (reports ?d) rid 0 \<noteq> length (reports ?d)"
      using report_loop_unknown [of "reports ?d" rid] by simp
    from bridge_skip [OF k known, of ab data len] h kl show ?thesis by simp
  qed
  have C: "\<exists>s'. bt_host_bridge ab s device rid data len = Some (s', [Adapter_bridge k]) \<and>
           report_cnt (bt_adapter_data s' ! k) = report_cnt ?d + 1"
    if h: "(type_dev device = HID_GENERIC \<longrightarrow> rid \<in> set (map id_rep (reports ?d))) \<and>
      (atomic_test_bit (flags ?d) BT_INIT \<or> 1 < report_cnt ?d) \<and>
      memcpy (input_buf ?d) 0 data (unat (bridge_len ?d device rid len)) = Some buf \<and>
      (\<forall>x. report_cnt (ab x) = report_cnt x)"
  proof -
    from h have known: "type_dev device = HID_GENERIC \<longrightarrow>
         report_loop (reports ?d) rid 0 \<noteq> length (reports ?d)"
      using report_loop_unknown [of "reports ?d" rid] by simp
    from h have gt: "atomic_test_bit (flags ?d) BT_INIT \<or> 1 < report_cnt ?d"
      and fits: "memcpy (input_buf ?d) 0 data (unat (bridge_len ?d device rid len)) = Some buf"
      and fr: "\<And>x. report_cnt (ab x) = report_cnt x" by simp_all
    from bridge_invoke [OF k known gt fits, of ab] kl show ?thesis by (simp add: fr)
  qed
  from A B C show ?thesis by blast
qed

text \<open>
  Against C8 as first stated: a call for a \<^verbatim>\<open>HID_GENERIC\<close> session with report id 5,
  which the zeroed table does not hold, returns with the counter still 0.
\<close>

theorem bridge_discard_counterexample:
  "report_cnt (bt_adapter_data host_zero ! 0) = 0 \<and>
   map_option (\<lambda>r. report_cnt (bt_adapter_data (fst r) ! 0))
     (bt_host_bridge (\<lambda>d. d) host_zero zero_bt_dev 5 [1, 2, 3] 3) = Some 0"
proof -
  have k: "index_of (id_dev zero_bt_dev) (length (bt_adapter_data host_zero)) = Some 0"
    by (simp add: zero_bt_dev_def host_zero_def index_of_def)
  have "report_loop (reports (bt_adapter_data host_zero ! 0)) 5 0
          = length (reports (bt_adapter_data host_zero ! 0))"
    by (rule report_loop_unknown [THEN iffD2]) (simp add: host_zero_def)
  from bridge_discard [OF k _ this, of "\<lambda>d. d" "[1, 2, 3]" 3]
  have "bt_host_bridge (\<lambda>d. d) host_zero zero_bt_dev 5 [1, 2, 3] 3 = Some (host_zero, [])"
    by (simp add: zero_bt_dev_def HID_GENERIC_def)
  then show ?thesis by (simp add: host_zero_def)
qed

text \<open>A discarded call, a call that skips the bridge and a call that makes it.\<close>

theorem bridge_report_cnt_witness:
  "bt_host_bridge (\<lambda>d. d) host_zero zero_bt_dev 5 [1, 2, 3] 3 = Some (host_zero, []) \<and>
   (\<exists>s'. bt_host_bridge (\<lambda>d. d) host_zero pad_dev 1 [1, 2, 3] 3 = Some (s', []) \<and>
      report_cnt (bt_adapter_data s' ! 0) = 1) \<and>
   (\<exists>s'. bt_host_bridge (\<lambda>d. d)
        (host_zero\<lparr>bt_adapter_data :=
           (bt_adapter_data host_zero)[0 := (bt_adapter_data host_zero ! 0)\<lparr>report_cnt := 2\<rparr>]\<rparr>)
        pad_dev 1 [1, 2, 3] 3 = Some (s', [Adapter_bridge 0]) \<and>
      report_cnt (bt_adapter_data s' ! 0) = 3)"
proof -
  let ?s2 = "host_zero\<lparr>bt_adapter_data :=
           (bt_adapter_data host_zero)[0 := (bt_adapter_data host_zero ! 0)\<lparr>report_cnt := 2\<rparr>]\<rparr>"
  have k0: "index_of (id_dev zero_bt_dev) (length (bt_adapter_data host_zero)) = Some 0"
    by (simp add: zero_bt_dev_def host_zero_def index_of_def)
  have k1: "index_of (id_dev pad_dev) (length (bt_adapter_data host_zero)) = Some 0"
    by (simp add: pad_dev_def zero_bt_dev_def host_zero_def index_of_def)
  have k2: "index_of (id_dev pad_dev) (length (bt_adapter_data ?s2)) = Some 0"
    by (simp add: pad_dev_def zero_bt_dev_def host_zero_def index_of_def)
  from bridge_report_cnt [OF k0, where rid = 5 and ab = "\<lambda>d. d" and data = "[1, 2, 3]" and len = 3,
      THEN conjunct1]
  have 1: "bt_host_bridge (\<lambda>d. d) host_zero zero_bt_dev 5 [1, 2, 3] 3 = Some (host_zero, [])"
    by (simp add: zero_bt_dev_def HID_GENERIC_def host_zero_def)
  from bridge_report_cnt [OF k1, where rid = 1 and ab = "\<lambda>d. d" and data = "[1, 2, 3]" and len = 3,
      THEN conjunct2, THEN conjunct1]
  have 2: "\<exists>s'. bt_host_bridge (\<lambda>d. d) host_zero pad_dev 1 [1, 2, 3] 3 = Some (s', []) \<and>
      report_cnt (bt_adapter_data s' ! 0) = 1"
    by (simp add: pad_dev_def zero_bt_dev_def HID_GENERIC_def host_zero_def atomic_test_bit_def)
  have fits: "memcpy (input_buf (bt_adapter_data ?s2 ! 0)) 0 [1, 2, 3]
        (unat (bridge_len (bt_adapter_data ?s2 ! 0) pad_dev 1 3))
      = Some ([1, 2, 3] @ replicate 125 0)"
    by (simp add: pad_dev_def HID_GENERIC_def host_zero_def memcpy_def bridge_len_def)
  from bridge_report_cnt [OF k2, where rid = 1 and ab = "\<lambda>d. d" and data = "[1, 2, 3]" and len = 3
        and buf = "[1, 2, 3] @ replicate 125 0", THEN conjunct2, THEN conjunct2] fits
  have 3: "\<exists>s'. bt_host_bridge (\<lambda>d. d) ?s2 pad_dev 1 [1, 2, 3] 3 = Some (s', [Adapter_bridge 0]) \<and>
      report_cnt (bt_adapter_data s' ! 0) = 3"
    by (simp add: pad_dev_def zero_bt_dev_def HID_GENERIC_def host_zero_def)
  from 1 2 3 show ?thesis by blast
qed

section \<open>Properties of the transmit queue\<close>

lemma clear_then_test [simp]: "\<not> atomic_test_bit (atomic_clear_bit w b) b"
  by (simp add: atomic_test_bit_def atomic_clear_bit_def bit_unset_bit_iff)

lemma ready_after_callback: "atomic_test_bit (bt_flags (bt_host_tx_pkt_ready s)) BT_CTRL_READY"
  by (simp add: bt_host_tx_pkt_ready_def atomic_test_bit_def atomic_set_bit_def
      BT_CTRL_READY_def bit_set_bit_iff)

lemma tx_iter_not_ready:
  "\<not> atomic_test_bit (bt_flags s) BT_CTRL_READY \<Longrightarrow> bt_tx_task_iter tick s = Some (s, [])"
  by (simp add: bt_tx_task_iter_def)

lemma tx_iter_wait:
  "atomic_test_bit (bt_flags s) BT_CTRL_READY \<Longrightarrow> txq s = p # rest \<Longrightarrow> 2 \<le> length p
     \<Longrightarrow> p ! 0 = 0xFF
     \<Longrightarrow> bt_tx_task_iter tick s = Some (s\<lparr>txq := rest\<rparr>, [VTaskDelay (unat (p ! 1) div tick)])"
  by (cases p) (auto simp: bt_tx_task_iter_def)

lemma tx_iter_send:
  "atomic_test_bit (bt_flags s) BT_CTRL_READY \<Longrightarrow> txq s = p # rest \<Longrightarrow> 1 \<le> length p
     \<Longrightarrow> p ! 0 \<noteq> 0xFF
     \<Longrightarrow> bt_tx_task_iter tick s =
           Some (s\<lparr>bt_flags := atomic_clear_bit (bt_flags s) BT_CTRL_READY, txq := rest\<rparr>,
                 [Esp_vhci_host_send_packet p])"
  by (cases p) (auto simp: bt_tx_task_iter_def)

lemma tx_iter_cases:
  assumes "bt_tx_task_iter tick s = Some (s1, cs)"
  shows "(filter is_send cs = [] \<and> bt_flags s1 = bt_flags s) \<or>
         (atomic_test_bit (bt_flags s) BT_CTRL_READY \<and> length (filter is_send cs) = 1 \<and>
          \<not> atomic_test_bit (bt_flags s1) BT_CTRL_READY)"
  using assms
  by (auto simp: bt_tx_task_iter_def is_send_def split: if_splits list.splits)

lemma host_step_cases:
  assumes "host_step room tick s x = Some (s1, cs)" "x \<noteq> Tx_pkt_ready"
  shows "(filter is_send cs = [] \<and> bt_flags s1 = bt_flags s) \<or>
         (atomic_test_bit (bt_flags s) BT_CTRL_READY \<and> length (filter is_send cs) = 1 \<and>
          \<not> atomic_test_bit (bt_flags s1) BT_CTRL_READY)"
proof (cases x)
  case Tx_task_iter
  with assms tx_iter_cases [of tick s s1 cs] show ?thesis by (simp add: host_step_def)
next
  case Tx_pkt_ready
  with assms show ?thesis by simp
next
  case (Txq_add p)
  with assms show ?thesis by (auto simp: host_step_def bt_host_txq_add_def)
next
  case (Q_wait_pkt ms)
  with assms show ?thesis
    by (auto simp: host_step_def bt_host_q_wait_pkt_def bt_host_txq_add_def)
qed

lemma run_not_ready:
  "host_run room tick s ops = Some (s', cs) \<Longrightarrow> Tx_pkt_ready \<notin> set ops
     \<Longrightarrow> \<not> atomic_test_bit (bt_flags s) BT_CTRL_READY
     \<Longrightarrow> filter is_send cs = [] \<and> \<not> atomic_test_bit (bt_flags s') BT_CTRL_READY"
proof (induction ops arbitrary: s cs)
  case Nil
  then show ?case by simp
next
  case (Cons x xs)
  from Cons.prems(1) obtain s1 c1 c2 where
    st: "host_step room tick s x = Some (s1, c1)" and
    rn: "host_run room tick s1 xs = Some (s', c2)" and cs: "cs = c1 @ c2"
    by (auto split: option.splits)
  from host_step_cases [OF st] Cons.prems(2,3)
  have 1: "filter is_send c1 = []" "\<not> atomic_test_bit (bt_flags s1) BT_CTRL_READY" by auto
  from Cons.IH [OF rn _ 1(2)] Cons.prems(2) 1 cs show ?case by simp
qed

lemma run_one_send:
  "host_run room tick s ops = Some (s', cs) \<Longrightarrow> Tx_pkt_ready \<notin> set ops
     \<Longrightarrow> length (filter is_send cs) \<le> 1 \<and>
         (filter is_send cs \<noteq> [] \<longrightarrow> \<not> atomic_test_bit (bt_flags s') BT_CTRL_READY)"
proof (induction ops arbitrary: s cs)
  case Nil
  then show ?case by simp
next
  case (Cons x xs)
  from Cons.prems(1) obtain s1 c1 c2 where
    st: "host_step room tick s x = Some (s1, c1)" and
    rn: "host_run room tick s1 xs = Some (s', c2)" and cs: "cs = c1 @ c2"
    by (auto split: option.splits)
  from Cons.prems(2) have nx: "x \<noteq> Tx_pkt_ready" and nxs: "Tx_pkt_ready \<notin> set xs" by auto
  from host_step_cases [OF st nx] show ?case
  proof
    assume "filter is_send c1 = [] \<and> bt_flags s1 = bt_flags s"
    with Cons.IH [OF rn nxs] cs show ?thesis by simp
  next
    assume a: "atomic_test_bit (bt_flags s) BT_CTRL_READY \<and> length (filter is_send c1) = 1 \<and>
          \<not> atomic_test_bit (bt_flags s1) BT_CTRL_READY"
    with run_not_ready [OF rn nxs] cs show ?thesis by simp
  qed
qed

lemma unat_ms_byte: "unat (ucast (ms :: u32) :: u8) = unat ms mod 256"
  by (simp add: unsigned_ucast_eq take_bit_eq_mod)

text \<open>
  Claim C4. A turn of the drain loop with the ready signal clear pops nothing and sends
  nothing. With the signal set, a wait item (first byte \<open>0xFF\<close>) is popped and
  \<^verbatim>\<open>vTaskDelay\<close> is called for its second byte divided by the tick period, nothing is
  sent and the signal stays set; any other item is popped and sent, and the signal is
  clear afterwards. Over any sequence of steps of the drain task and of the callers of
  the queue in which the callback \<^verbatim>\<open>bt_host_tx_pkt_ready\<close> does not occur, at most one
  packet is sent, none if the signal is clear at the start, and after a send the signal
  is clear; the callback sets the signal. The steps are taken one at a time: a turn of
  the loop is one step.
\<close>

theorem tx_one_outstanding:
  "(\<not> atomic_test_bit (bt_flags s) BT_CTRL_READY \<longrightarrow> bt_tx_task_iter tick s = Some (s, [])) \<and>
   (atomic_test_bit (bt_flags s) BT_CTRL_READY \<and> txq s = p # rest \<and> 2 \<le> length p \<and>
      p ! 0 = 0xFF \<longrightarrow>
      bt_tx_task_iter tick s = Some (s\<lparr>txq := rest\<rparr>, [VTaskDelay (unat (p ! 1) div tick)])) \<and>
   (atomic_test_bit (bt_flags s) BT_CTRL_READY \<and> txq s = p # rest \<and> 1 \<le> length p \<and>
      p ! 0 \<noteq> 0xFF \<longrightarrow>
      bt_tx_task_iter tick s =
        Some (s\<lparr>bt_flags := atomic_clear_bit (bt_flags s) BT_CTRL_READY, txq := rest\<rparr>,
              [Esp_vhci_host_send_packet p]) \<and>
      \<not> atomic_test_bit (atomic_clear_bit (bt_flags s) BT_CTRL_READY) BT_CTRL_READY) \<and>
   (\<forall>ops s' cs. host_run room tick s ops = Some (s', cs) \<and> Tx_pkt_ready \<notin> set ops \<longrightarrow>
      length (filter is_send cs) \<le> 1 \<and>
      (filter is_send cs \<noteq> [] \<longrightarrow> \<not> atomic_test_bit (bt_flags s') BT_CTRL_READY) \<and>
      (\<not> atomic_test_bit (bt_flags s) BT_CTRL_READY \<longrightarrow> filter is_send cs = [])) \<and>
   atomic_test_bit (bt_flags (bt_host_tx_pkt_ready s)) BT_CTRL_READY"
proof -
  have D: "length (filter is_send cs) \<le> 1 \<and>
      (filter is_send cs \<noteq> [] \<longrightarrow> \<not> atomic_test_bit (bt_flags s') BT_CTRL_READY) \<and>
      (\<not> atomic_test_bit (bt_flags s) BT_CTRL_READY \<longrightarrow> filter is_send cs = [])"
    if "host_run room tick s ops = Some (s', cs) \<and> Tx_pkt_ready \<notin> set ops" for ops s' cs
    using that run_one_send [of room tick s ops s' cs] run_not_ready [of room tick s ops s' cs]
    by blast
  show ?thesis
    using tx_iter_not_ready [of s tick] tx_iter_wait [of s p rest tick]
      tx_iter_send [of s p rest tick] D ready_after_callback [of s]
    by (simp del: One_nat_def)
qed

text \<open>
  Three turns of the loop on the example queue, with a tick of 10 ms: the wait, one
  packet sent, and a turn that does nothing.
\<close>

theorem tx_one_outstanding_witness:
  "bt_tx_task_iter 10 ready_queue
     = Some (ready_queue\<lparr>txq := [[1, 2, 3], [4, 5, 6]]\<rparr>, [VTaskDelay 5]) \<and>
   bt_tx_task_iter 10 (ready_queue\<lparr>txq := [[1, 2, 3], [4, 5, 6]]\<rparr>)
     = Some (ready_queue\<lparr>bt_flags := atomic_clear_bit 1 BT_CTRL_READY, txq := [[4, 5, 6]]\<rparr>,
             [Esp_vhci_host_send_packet [1, 2, 3]]) \<and>
   bt_tx_task_iter 10 (ready_queue\<lparr>bt_flags := atomic_clear_bit 1 BT_CTRL_READY, txq := [[4, 5, 6]]\<rparr>)
     = Some (ready_queue\<lparr>bt_flags := atomic_clear_bit 1 BT_CTRL_READY, txq := [[4, 5, 6]]\<rparr>, []) \<and>
   (\<exists>s' cs. host_run (\<lambda>q p. True) 10 ready_queue [Tx_task_iter, Tx_task_iter, Tx_task_iter, Txq_add [7]]
               = Some (s', cs) \<and>
      length (filter is_send cs) \<le> 1 \<and> \<not> atomic_test_bit (bt_flags s') BT_CTRL_READY)"
proof -
  let ?s1 = "ready_queue\<lparr>txq := [[1, 2, 3], [4, 5, 6]]\<rparr>"
  let ?s2 = "ready_queue\<lparr>bt_flags := atomic_clear_bit 1 BT_CTRL_READY, txq := [[4, 5, 6]]\<rparr>"
  have r0: "atomic_test_bit (bt_flags ready_queue) BT_CTRL_READY"
    by (simp add: ready_queue_def atomic_test_bit_def BT_CTRL_READY_def)
  from tx_one_outstanding [of ready_queue 10 "[0xFF, 50]" "[[1, 2, 3], [4, 5, 6]]",
      THEN conjunct2, THEN conjunct1] r0
  have 1: "bt_tx_task_iter 10 ready_queue = Some (?s1, [VTaskDelay 5])"
    by (simp add: ready_queue_def)
  from tx_one_outstanding [of ?s1 10 "[1, 2, 3]" "[[4, 5, 6]]",
      THEN conjunct2, THEN conjunct2, THEN conjunct1] r0
  have 2: "bt_tx_task_iter 10 ?s1 = Some (?s2, [Esp_vhci_host_send_packet [1, 2, 3]])"
    by (simp add: ready_queue_def)
  from tx_one_outstanding [of ?s2 10, THEN conjunct1]
  have 3: "bt_tx_task_iter 10 ?s2 = Some (?s2, [])"
    by simp
  have run: "host_run (\<lambda>q p. True) 10 ready_queue [Tx_task_iter, Tx_task_iter, Tx_task_iter, Txq_add [7]]
      = Some (?s2\<lparr>txq := [[4, 5, 6], [7]]\<rparr>, [VTaskDelay 5, Esp_vhci_host_send_packet [1, 2, 3]])"
    by (simp add: host_step_def 1 2 3 bt_host_txq_add_def)
  from tx_one_outstanding [of ready_queue 10 _ _ "\<lambda>q p. True",
      THEN conjunct2, THEN conjunct2, THEN conjunct2, THEN conjunct1, THEN spec, THEN spec, THEN spec,
      THEN mp, OF conjI, OF run]
  have 4: "length (filter is_send [VTaskDelay 5, Esp_vhci_host_send_packet [1, 2, 3]]) \<le> 1 \<and>
      \<not> atomic_test_bit (bt_flags (?s2\<lparr>txq := [[4, 5, 6], [7]]\<rparr>)) BT_CTRL_READY"
    by (simp add: is_send_def)
  from 1 2 3 run 4 show ?thesis by (intro conjI exI) (assumption | simp)+
qed

text \<open>
  Claim C9. \<^verbatim>\<open>bt_host_q_wait_pkt\<close> queues, when there is room, the two bytes
  \<open>0xFF\<close> and \<open>ms\<close> converted to a byte, whose value is \<open>ms\<close> modulo 256. When
  the drain loop pops that item it calls \<^verbatim>\<open>vTaskDelay\<close> for \<open>ms\<close> modulo 256
  milliseconds, converted to ticks by the division by \<^verbatim>\<open>portTICK_PERIOD_MS\<close>, and
  sends nothing. For a request of 256 ms or more the byte is less than the request.
\<close>

theorem wait_pkt_delay:
  "(room (txq s) [0xFF, ucast ms] \<longrightarrow>
      bt_host_q_wait_pkt room s ms = s\<lparr>txq := txq s @ [[0xFF, ucast ms]]\<rparr>) \<and>
   unat (ucast ms :: u8) = unat ms mod 256 \<and>
   (atomic_test_bit (bt_flags s) BT_CTRL_READY \<and> txq s = [0xFF, ucast ms] # rest \<longrightarrow>
      bt_tx_task_iter tick s = Some (s\<lparr>txq := rest\<rparr>, [VTaskDelay (unat ms mod 256 div tick)])) \<and>
   (atomic_test_bit (bt_flags s) BT_CTRL_READY \<and> txq s = [] \<and> room [] [0xFF, ucast ms] \<longrightarrow>
      bt_tx_task_iter tick (bt_host_q_wait_pkt room s ms)
        = Some (s, [VTaskDelay (unat ms mod 256 div tick)])) \<and>
   (256 \<le> unat ms \<longrightarrow> unat (ucast ms :: u8) < unat ms)"
proof -
  have A: "bt_host_q_wait_pkt room s ms = s\<lparr>txq := txq s @ [[0xFF, ucast ms]]\<rparr>"
    if "room (txq s) [0xFF, ucast ms]"
    using that by (simp add: bt_host_q_wait_pkt_def bt_host_txq_add_def)
  have C: "bt_tx_task_iter tick s' = Some (s'\<lparr>txq := rest'\<rparr>, [VTaskDelay (unat ms mod 256 div tick)])"
    if "atomic_test_bit (bt_flags s') BT_CTRL_READY \<and> txq s' = [0xFF, ucast ms] # rest'" for s' rest'
    using that tx_iter_wait [of s' "[0xFF, ucast ms]" rest' tick] by (simp add: unat_ms_byte)
  have D: "bt_tx_task_iter tick (bt_host_q_wait_pkt room s ms)
        = Some (s, [VTaskDelay (unat ms mod 256 div tick)])"
    if h: "atomic_test_bit (bt_flags s) BT_CTRL_READY \<and> txq s = [] \<and> room [] [0xFF, ucast ms]"
  proof -
    from h A have q: "bt_host_q_wait_pkt room s ms = s\<lparr>txq := [[0xFF, ucast ms]]\<rparr>" by simp
    have "s\<lparr>txq := []\<rparr> = s" using h by simp
    with C [of "s\<lparr>txq := [[0xFF, ucast ms]]\<rparr>" "[]"] h q show ?thesis by simp
  qed
  have E: "unat (ucast ms :: u8) < unat ms" if "256 \<le> unat ms"
    using that by (simp add: unat_ms_byte)
  from A C [of s rest] D E unat_ms_byte [of ms] show ?thesis by blast
qed

text \<open>A request of 300 ms is queued as 44 ms: 4 ticks of 10 ms.\<close>

theorem wait_pkt_delay_witness:
  "bt_host_q_wait_pkt (\<lambda>q p. True) (host_zero\<lparr>bt_flags := 1\<rparr>) 300
     = host_zero\<lparr>bt_flags := 1, txq := [[0xFF, 44]]\<rparr> \<and>
   bt_tx_task_iter 10 (bt_host_q_wait_pkt (\<lambda>q p. True) (host_zero\<lparr>bt_flags := 1\<rparr>) 300)
     = Some (host_zero\<lparr>bt_flags := 1\<rparr>, [VTaskDelay 4]) \<and>
   unat (ucast (300 :: u32) :: u8) < unat (300 :: u32)"
proof -
  let ?s = "host_zero\<lparr>bt_flags := 1\<rparr>"
  note T = wait_pkt_delay [of "\<lambda>q p. True" ?s 300 "[]" 10]
  have r0: "atomic_test_bit (bt_flags ?s) BT_CTRL_READY"
    by (simp add: atomic_test_bit_def BT_CTRL_READY_def)
  have q0: "txq ?s = []" by (simp add: host_zero_def)
  from T [THEN conjunct1]
  have 1: "bt_host_q_wait_pkt (\<lambda>q p. True) ?s 300 = host_zero\<lparr>bt_flags := 1, txq := [[0xFF, 44]]\<rparr>"
    by (simp add: host_zero_def)
  from T [THEN conjunct2, THEN conjunct2, THEN conjunct2, THEN conjunct1] r0 q0
  have 2: "bt_tx_task_iter 10 (bt_host_q_wait_pkt (\<lambda>q p. True) ?s 300) = Some (?s, [VTaskDelay 4])"
    by simp
  from T [THEN conjunct2, THEN conjunct2, THEN conjunct2, THEN conjunct2]
  have 3: "unat (ucast (300 :: u32) :: u8) < unat (300 :: u32)" by simp
  from 1 2 3 show ?thesis by blast
qed

section \<open>Properties of the feedback relay\<close>

text \<open>
  Claim C10. For a feedback item, \<^verbatim>\<open>bt_fb_task\<close> uses the first byte as the index
  into \<^verbatim>\<open>bt_dev\<close> with no check: when the byte is 7 or more the access is outside
  the table, so a turn that completes had a byte below 7. When the byte is below 7 (and
  the id of that session is inside \<^verbatim>\<open>bt_adapter.data\<close>), the session is used
  whatever its flags are: \<^verbatim>\<open>adapter_bridge_fb\<close> is called on its generic-adapter
  data and \<^verbatim>\<open>bt_hid_feedback\<close> on the session when that call returns true, and
  replacing the flags of the session by any value leaves the calls the same.
\<close>

theorem fb_task_unchecked_index:
  "(fb_data \<noteq> [] \<and> \<not> unat (fb_data ! 0) < BT_DEV_MAX \<longrightarrow>
      bt_fb_task_item fb s fb_data = None) \<and>
   (\<forall>r. bt_fb_task_item fb s fb_data = Some r \<longrightarrow> unat (fb_data ! 0) < BT_DEV_MAX) \<and>
   (fb_data \<noteq> [] \<and> unat (fb_data ! 0) < BT_DEV_MAX \<and>
    index_of (id_dev (bt_dev s ! unat (fb_data ! 0))) (length (bt_adapter_data s)) = Some k \<longrightarrow>
      bt_fb_task_item fb s fb_data =
        Some (s\<lparr>bt_adapter_data :=
                  (bt_adapter_data s)[k := snd (fb fb_data (bt_adapter_data s ! k))]\<rparr>,
              if fst (fb fb_data (bt_adapter_data s ! k))
              then [Bt_hid_feedback (unat (fb_data ! 0))
                      (output_buf (snd (fb fb_data (bt_adapter_data s ! k))))]
              else []) \<and>
      (\<forall>fl. map_option snd
              (bt_fb_task_item fb
                 (s\<lparr>bt_dev := (bt_dev s)[unat (fb_data ! 0) :=
                                   (bt_dev s ! unat (fb_data ! 0))\<lparr>flags_dev := fl\<rparr>]\<rparr>) fb_data)
            = map_option snd (bt_fb_task_item fb s fb_data)))"
proof -
  have A: "bt_fb_task_item fb s fb_data = None"
    if "fb_data \<noteq> [] \<and> \<not> unat (fb_data ! 0) < BT_DEV_MAX"
    using that by (simp add: bt_fb_task_item_def deref_def)
  have B: "unat (fb_data ! 0) < BT_DEV_MAX" if "bt_fb_task_item fb s fb_data = Some r" for r
    using that by (auto simp: bt_fb_task_item_def deref_def split: if_splits)
  have C: "bt_fb_task_item fb s' fb_data =
        Some (s'\<lparr>bt_adapter_data :=
                  (bt_adapter_data s')[k := snd (fb fb_data (bt_adapter_data s' ! k))]\<rparr>,
              if fst (fb fb_data (bt_adapter_data s' ! k))
              then [Bt_hid_feedback (unat (fb_data ! 0))
                      (output_buf (snd (fb fb_data (bt_adapter_data s' ! k))))]
              else [])"
    if "fb_data \<noteq> [] \<and> unat (fb_data ! 0) < BT_DEV_MAX \<and>
      index_of (id_dev (bt_dev s' ! unat (fb_data ! 0))) (length (bt_adapter_data s')) = Some k"
    for s'
    using that by (simp add: bt_fb_task_item_def deref_def Let_def split: prod.splits)
  have D: "map_option snd
              (bt_fb_task_item fb
                 (s\<lparr>bt_dev := (bt_dev s)[unat (fb_data ! 0) :=
                                   (bt_dev s ! unat (fb_data ! 0))\<lparr>flags_dev := fl\<rparr>]\<rparr>) fb_data)
            = map_option snd (bt_fb_task_item fb s fb_data)"
    if h: "fb_data \<noteq> [] \<and> unat (fb_data ! 0) < BT_DEV_MAX \<and>
      index_of (id_dev (bt_dev s ! unat (fb_data ! 0))) (length (bt_adapter_data s)) = Some k"
    for fl
  proof -
    let ?i = "unat (fb_data ! 0)"
    let ?s' = "s\<lparr>bt_dev := (bt_dev s)[?i := (bt_dev s ! ?i)\<lparr>flags_dev := fl\<rparr>]\<rparr>"
    have "id_dev (bt_dev ?s' ! ?i) = id_dev (bt_dev s ! ?i)"
      by (cases "?i < length (bt_dev s)") (simp_all add: list_update_beyond)
    with h have "fb_data \<noteq> [] \<and> ?i < BT_DEV_MAX \<and>
      index_of (id_dev (bt_dev ?s' ! ?i)) (length (bt_adapter_data ?s')) = Some k"
      by simp
    from C [OF this] C [OF h] show ?thesis by simp
  qed
  from A B C [of s] D show ?thesis by blast
qed

text \<open>
  Index 9 is outside the table; index 3 names a session that is not marked found, and the
  feedback goes to it.
\<close>

theorem fb_task_unchecked_index_witness:
  "bt_fb_task_item (\<lambda>fd d. (True, d)) host_zero [9, 1] = None \<and>
   \<not> atomic_test_bit (flags_dev (bt_dev host_zero ! 3)) BT_DEV_DEVICE_FOUND \<and>
   bt_fb_task_item (\<lambda>fd d. (True, d)) host_zero [3, 1]
     = Some (host_zero, [Bt_hid_feedback 3 (replicate 128 0)])"
proof -
  note T = fb_task_unchecked_index [of _ "\<lambda>fd d. (True, d)" host_zero]
  from T [of "[9, 1]", THEN conjunct1]
  have 1: "bt_fb_task_item (\<lambda>fd d. (True, d)) host_zero [9, 1] = None"
    by (simp add: BT_DEV_MAX_def)
  have 2: "\<not> atomic_test_bit (flags_dev (bt_dev host_zero ! 3)) BT_DEV_DEVICE_FOUND"
    by (simp add: host_zero_def BT_DEV_MAX_def zero_not_found)
  have k: "index_of (id_dev (bt_dev host_zero ! unat (3 :: u8))) (length (bt_adapter_data host_zero))
      = Some 0"
    by (simp add: host_zero_def BT_DEV_MAX_def zero_bt_dev_def index_of_def)
  have e: "host_zero\<lparr>bt_adapter_data := (bt_adapter_data host_zero)[0 := bt_adapter_data host_zero ! 0]\<rparr>
      = host_zero" by simp
  from T [of "[3, 1]" 0, THEN conjunct2, THEN conjunct2, THEN mp, THEN conjunct1] k
  have 3: "bt_fb_task_item (\<lambda>fd d. (True, d)) host_zero [3, 1]
     = Some (host_zero, [Bt_hid_feedback 3 (replicate 128 0)])"
    by (simp add: BT_DEV_MAX_def e) (simp add: host_zero_def)
  from 1 2 3 show ?thesis by blast
qed

section \<open>Properties of the ACL routing\<close>

lemma acl_route_of_cong:
  "bt_dev s' = bt_dev s \<Longrightarrow> acl_route_of s' d cid = acl_route_of s d cid"
  by (simp add: acl_route_of_def split: option.splits)

lemma acl_route_of_frag [simp]:
  "acl_route_of (s\<lparr>frag_buf := b\<rparr>) d cid = acl_route_of s d cid"
  "acl_route_of (s\<lparr>frag_offset := off\<rparr>) d cid = acl_route_of s d cid"
  "acl_route_of (s\<lparr>frag_size := sz\<rparr>) d cid = acl_route_of s d cid"
  by (rule acl_route_of_cong, simp)+

lemma acl_dispatch_Some:
  "l2cap_hdr_cid pkt = Some cid \<Longrightarrow>
   acl_dispatch s d pkt n = Some (s, Dispatch (acl_route_of s d cid) pkt n)"
  by (simp add: acl_dispatch_def)

lemma acl_dispatch_DispatchD:
  assumes "acl_dispatch s d pkt n = Some (s', Dispatch r f fl)"
  shows "s' = s \<and> f = pkt \<and> fl = n \<and>
         (\<exists>cid. l2cap_hdr_cid pkt = Some cid \<and> r = acl_route_of s d cid)"
  using assms by (auto simp: acl_dispatch_def split: option.splits)

lemma acl_start_DispatchD:
  assumes "acl_start s d pkt n = Some (s', Dispatch r f fl)"
  shows "s' = s \<and> f = pkt \<and> fl = n \<and>
         (\<exists>cid. l2cap_hdr_cid pkt = Some cid \<and> r = acl_route_of s d cid)"
proof -
  from assms obtain handle where h: "acl_hdr_handle pkt = Some handle"
    by (cases "acl_hdr_handle pkt") (simp_all add: acl_start_def)
  have "acl_dispatch s d pkt n = Some (s', Dispatch r f fl)"
  proof (cases "bt_acl_flags handle = BT_ACL_START")
    case False
    with assms h show ?thesis by (simp add: acl_start_def)
  next
    case True
    with assms h obtain l2len where l: "l2cap_hdr_len pkt = Some l2len"
      by (cases "l2cap_hdr_len pkt") (simp_all add: acl_start_def)
    show ?thesis
    proof (cases "n - of_nat (BT_HCI_H4_HDR_SIZE + BT_HCI_ACL_HDR_SIZE + BT_L2CAP_HDR_SIZE)
                    < ucast l2len")
      case False
      with assms h True l show ?thesis by (simp add: acl_start_def)
    next
      case lt: True
      with assms h True l show ?thesis
        by (cases "memcpy (frag_buf s) 0 pkt (unat n)") (simp_all add: acl_start_def)
    qed
  qed
  then show ?thesis by (rule acl_dispatch_DispatchD)
qed

lemma acl_hdlr_DispatchD:
  assumes "bt_host_acl_hdlr s pkt len = Some (s', Dispatch r f fl)"
  shows "\<exists>handle cid. acl_hdr_handle pkt = Some handle \<and> l2cap_hdr_cid f = Some cid \<and>
           r = acl_route_of s (bt_host_get_dev_from_handle s handle) cid \<and>
           bt_dev s' = bt_dev s"
proof -
  from assms obtain handle where h: "acl_hdr_handle pkt = Some handle"
    by (cases "acl_hdr_handle pkt") (simp_all add: bt_host_acl_hdlr_def)
  let ?d = "bt_host_get_dev_from_handle s handle"
  show ?thesis
  proof (cases "bt_acl_flags handle = BT_ACL_CONT")
    case False
    with assms h have "acl_start s ?d pkt len = Some (s', Dispatch r f fl)"
      by (simp add: bt_host_acl_hdlr_def)
    from acl_start_DispatchD [OF this] h show ?thesis by auto
  next
    case True
    with assms h obtain alen where a: "acl_hdr_len pkt = Some alen"
      by (cases "acl_hdr_len pkt") (simp_all add: bt_host_acl_hdlr_def)
    with assms h True obtain buf where
      m: "memcpy (frag_buf s) (unat (frag_offset s))
            (drop (BT_HCI_H4_HDR_SIZE + BT_HCI_ACL_HDR_SIZE) pkt) (unat alen) = Some buf"
      by (cases "memcpy (frag_buf s) (unat (frag_offset s))
            (drop (BT_HCI_H4_HDR_SIZE + BT_HCI_ACL_HDR_SIZE) pkt) (unat alen)")
         (simp_all add: bt_host_acl_hdlr_def)
    let ?s1 = "s\<lparr>frag_buf := buf, frag_offset := frag_offset s + ucast alen\<rparr>"
    have "acl_start ?s1 ?d buf (frag_size s) = Some (s', Dispatch r f fl)"
    proof (cases "frag_offset s + ucast alen < frag_size s")
      case True
      with assms h \<open>bt_acl_flags handle = BT_ACL_CONT\<close> a m show ?thesis
        by (simp add: bt_host_acl_hdlr_def Let_def)
    next
      case False
      with assms h \<open>bt_acl_flags handle = BT_ACL_CONT\<close> a m show ?thesis
        by (simp add: bt_host_acl_hdlr_def Let_def)
    qed
    from acl_start_DispatchD [OF this] h show ?thesis by auto
  qed
qed

lemma acl_hdlr_complete:
  assumes h: "acl_hdr_handle pkt = Some handle"
    and nc: "bt_acl_flags handle \<noteq> BT_ACL_CONT"
    and fits: "bt_acl_flags handle = BT_ACL_START \<longrightarrow>
         (\<exists>l2len. l2cap_hdr_len pkt = Some l2len \<and>
            \<not> len - of_nat (BT_HCI_H4_HDR_SIZE + BT_HCI_ACL_HDR_SIZE + BT_L2CAP_HDR_SIZE)
                < ucast l2len)"
    and cid: "l2cap_hdr_cid pkt = Some cid"
  shows "bt_host_acl_hdlr s pkt len =
           Some (s, Dispatch (acl_route_of s (bt_host_get_dev_from_handle s handle) cid) pkt len)"
proof -
  have "acl_start s (bt_host_get_dev_from_handle s handle) pkt len =
          acl_dispatch s (bt_host_get_dev_from_handle s handle) pkt len"
  proof (cases "bt_acl_flags handle = BT_ACL_START")
    case False
    with h show ?thesis by (simp add: acl_start_def)
  next
    case True
    with fits obtain l2len where "l2cap_hdr_len pkt = Some l2len"
      "\<not> len - of_nat (BT_HCI_H4_HDR_SIZE + BT_HCI_ACL_HDR_SIZE + BT_L2CAP_HDR_SIZE)
                < ucast l2len" by blast
    with h True show ?thesis by (simp add: acl_start_def)
  qed
  with h nc cid show ?thesis
    by (simp add: bt_host_acl_hdlr_def acl_dispatch_def)
qed

lemma hid_frame_handle: "acl_hdr_handle hid_frame = Some 0x200B"
  by (simp add: acl_hdr_handle_def le16_def hid_frame_def BT_HCI_H4_HDR_SIZE_def)

lemma flags_200B: "bt_acl_flags 0x200B = BT_ACL_START"
  by (simp add: bt_acl_flags_def BT_ACL_START_def)

lemma handle_200B: "bt_acl_handle 0x200B = 0x00B"
  by (simp add: bt_acl_handle_def)

lemma hid_frame_cid: "l2cap_hdr_cid hid_frame = Some 0x43"
  by (simp add: l2cap_hdr_cid_def le16_def hid_frame_def BT_HCI_H4_HDR_SIZE_def BT_HCI_ACL_HDR_SIZE_def)

lemma hid_frame_l2len: "l2cap_hdr_len hid_frame = Some 2"
  by (simp add: l2cap_hdr_len_def le16_def hid_frame_def BT_HCI_H4_HDR_SIZE_def BT_HCI_ACL_HDR_SIZE_def)

lemma one_session_dev: "bt_host_get_dev_from_handle one_session 0x200B = Some 0"
  by (simp add: bt_host_get_dev_from_handle_def bt_dev_loop_Some one_session_def host_zero_def
      BT_DEV_MAX_def atomic_test_bit_def BT_DEV_DEVICE_FOUND_def handle_200B)

lemma one_session_no_dev: "bt_host_get_dev_from_handle one_session 0x200C = None"
proof -
  have "\<not> (atomic_test_bit (flags_dev (bt_dev one_session ! j)) BT_DEV_DEVICE_FOUND \<and>
           bt_acl_handle 0x200C = acl_handle (bt_dev one_session ! j))" if "j < BT_DEV_MAX" for j
  proof (cases "j = 0")
    case True
    then show ?thesis
      by (simp add: one_session_def host_zero_def BT_DEV_MAX_def bt_acl_handle_def)
  next
    case False
    with that have "bt_dev one_session ! j = zero_bt_dev"
      by (simp add: one_session_def host_zero_def)
    then show ?thesis by (simp add: zero_not_found)
  qed
  then show ?thesis
    by (simp add: bt_host_get_dev_from_handle_def bt_dev_loop_None)
qed

lemma att_frame_fields:
  "acl_hdr_handle att_frame = Some 0x200C" "l2cap_hdr_len att_frame = Some 3"
  "l2cap_hdr_cid att_frame = Some 0x0004" "bt_acl_flags 0x200C = BT_ACL_START"
  by (simp_all add: acl_hdr_handle_def l2cap_hdr_len_def l2cap_hdr_cid_def le16_def att_frame_def
      BT_HCI_H4_HDR_SIZE_def BT_HCI_ACL_HDR_SIZE_def bt_acl_flags_def BT_ACL_START_def)

lemma acl_route_of_first_match:
  assumes h: "acl_hdr_handle pkt = Some handle" and c: "l2cap_hdr_cid frame = Some cid"
    and d: "dev = bt_host_get_dev_from_handle s handle"
    and r: "r = acl_route_of s dev cid"
  shows "acl_hdr_handle pkt = Some handle \<and> l2cap_hdr_cid frame = Some cid \<and>
         dev = bt_host_get_dev_from_handle s handle \<and>
         (dev = None \<longrightarrow>
            (cid = BT_L2CAP_CID_ATT \<longrightarrow> r = Bt_att_hdlr) \<and>
            (cid \<noteq> BT_L2CAP_CID_ATT \<longrightarrow> r = Dev_null)) \<and>
         (\<forall>i. dev = Some i \<longrightarrow>
            (cid = BT_L2CAP_CID_BR_SIG \<longrightarrow> r = Bt_l2cap_sig_hdlr i) \<and>
            (cid \<noteq> BT_L2CAP_CID_BR_SIG \<and>
             (cid = scid (sdp_tx_chan (bt_dev s ! i)) \<or> cid = scid (sdp_rx_chan (bt_dev s ! i))) \<longrightarrow>
               r = Bt_sdp_hdlr i) \<and>
            (cid \<noteq> BT_L2CAP_CID_BR_SIG \<and>
             cid \<noteq> scid (sdp_tx_chan (bt_dev s ! i)) \<and> cid \<noteq> scid (sdp_rx_chan (bt_dev s ! i)) \<and>
             (cid = scid (ctrl_chan (bt_dev s ! i)) \<or> cid = scid (intr_chan (bt_dev s ! i))) \<longrightarrow>
               r = Bt_hid_hdlr i) \<and>
            (cid \<noteq> BT_L2CAP_CID_BR_SIG \<and>
             cid \<noteq> scid (sdp_tx_chan (bt_dev s ! i)) \<and> cid \<noteq> scid (sdp_rx_chan (bt_dev s ! i)) \<and>
             cid \<noteq> scid (ctrl_chan (bt_dev s ! i)) \<and> cid \<noteq> scid (intr_chan (bt_dev s ! i)) \<longrightarrow>
               r = No_hdlr)) \<and>
         (r = Bt_att_hdlr \<longleftrightarrow> dev = None \<and> cid = BT_L2CAP_CID_ATT) \<and>
         (dev = None \<longleftrightarrow>
            (\<forall>j<BT_DEV_MAX.
               \<not> (atomic_test_bit (flags_dev (bt_dev s ! j)) BT_DEV_DEVICE_FOUND \<and>
                  bt_acl_handle handle = acl_handle (bt_dev s ! j))))"
proof -
  have n: "dev = None \<longleftrightarrow>
            (\<forall>j<BT_DEV_MAX.
               \<not> (atomic_test_bit (flags_dev (bt_dev s ! j)) BT_DEV_DEVICE_FOUND \<and>
                  bt_acl_handle handle = acl_handle (bt_dev s ! j)))"
    unfolding d by (simp add: bt_host_get_dev_from_handle_def bt_dev_loop_None)
  have p1: "dev = None \<longrightarrow>
            (cid = BT_L2CAP_CID_ATT \<longrightarrow> r = Bt_att_hdlr) \<and>
            (cid \<noteq> BT_L2CAP_CID_ATT \<longrightarrow> r = Dev_null)"
    by (simp add: r acl_route_of_def)
  have p2: "\<forall>i. dev = Some i \<longrightarrow>
            (cid = BT_L2CAP_CID_BR_SIG \<longrightarrow> r = Bt_l2cap_sig_hdlr i) \<and>
            (cid \<noteq> BT_L2CAP_CID_BR_SIG \<and>
             (cid = scid (sdp_tx_chan (bt_dev s ! i)) \<or> cid = scid (sdp_rx_chan (bt_dev s ! i))) \<longrightarrow>
               r = Bt_sdp_hdlr i) \<and>
            (cid \<noteq> BT_L2CAP_CID_BR_SIG \<and>
             cid \<noteq> scid (sdp_tx_chan (bt_dev s ! i)) \<and> cid \<noteq> scid (sdp_rx_chan (bt_dev s ! i)) \<and>
             (cid = scid (ctrl_chan (bt_dev s ! i)) \<or> cid = scid (intr_chan (bt_dev s ! i))) \<longrightarrow>
               r = Bt_hid_hdlr i) \<and>
            (cid \<noteq> BT_L2CAP_CID_BR_SIG \<and>
             cid \<noteq> scid (sdp_tx_chan (bt_dev s ! i)) \<and> cid \<noteq> scid (sdp_rx_chan (bt_dev s ! i)) \<and>
             cid \<noteq> scid (ctrl_chan (bt_dev s ! i)) \<and> cid \<noteq> scid (intr_chan (bt_dev s ! i)) \<longrightarrow>
               r = No_hdlr)"
    by (simp add: r acl_route_of_def)
  have p3: "r = Bt_att_hdlr \<longleftrightarrow> dev = None \<and> cid = BT_L2CAP_CID_ATT"
    by (cases dev) (simp_all add: r acl_route_of_def)
  show ?thesis
    by (rule conjI [OF h], rule conjI [OF c], rule conjI [OF d], rule conjI [OF p1],
        rule conjI [OF p2], rule conjI [OF p3], rule n)
qed

text \<open>
  Claim C5. Whenever \<^verbatim>\<open>bt_host_acl_hdlr\<close> goes on to the routing of a frame (the
  received packet or the reassembled buffer), with \<open>cid\<close> the L2CAP channel id of the
  frame and \<open>dev\<close> the session found for the handle of the received packet, which is
  none exactly when no slot is marked found with that handle: without a session the
  frame goes to \<^verbatim>\<open>bt_att_hdlr\<close> for the Config Session if and only if \<open>cid\<close> is the
  attribute channel id, and is otherwise dropped with the message; with a session the
  signaling id is tested first, then the two SDP channel ids of the session, then its
  HID control and interrupt ids, the first test that holds decides the one handler
  called, and no handler is called when none holds. Every received packet that is not a
  continuation and not the start of a fragmented frame, and that holds the L2CAP
  header, is routed as it is.
\<close>

theorem acl_routing_first_match:
  "(\<forall>s' r frame flen.
      bt_host_acl_hdlr s pkt len = Some (s', Dispatch r frame flen) \<longrightarrow>
      (\<exists>handle cid dev.
         acl_hdr_handle pkt = Some handle \<and> l2cap_hdr_cid frame = Some cid \<and>
         dev = bt_host_get_dev_from_handle s handle \<and>
         (dev = None \<longrightarrow>
            (cid = BT_L2CAP_CID_ATT \<longrightarrow> r = Bt_att_hdlr) \<and>
            (cid \<noteq> BT_L2CAP_CID_ATT \<longrightarrow> r = Dev_null)) \<and>
         (\<forall>i. dev = Some i \<longrightarrow>
            (cid = BT_L2CAP_CID_BR_SIG \<longrightarrow> r = Bt_l2cap_sig_hdlr i) \<and>
            (cid \<noteq> BT_L2CAP_CID_BR_SIG \<and>
             (cid = scid (sdp_tx_chan (bt_dev s ! i)) \<or> cid = scid (sdp_rx_chan (bt_dev s ! i))) \<longrightarrow>
               r = Bt_sdp_hdlr i) \<and>
            (cid \<noteq> BT_L2CAP_CID_BR_SIG \<and>
             cid \<noteq> scid (sdp_tx_chan (bt_dev s ! i)) \<and> cid \<noteq> scid (sdp_rx_chan (bt_dev s ! i)) \<and>
             (cid = scid (ctrl_chan (bt_dev s ! i)) \<or> cid = scid (intr_chan (bt_dev s ! i))) \<longrightarrow>
               r = Bt_hid_hdlr i) \<and>
            (cid \<noteq> BT_L2CAP_CID_BR_SIG \<and>
             cid \<noteq> scid (sdp_tx_chan (bt_dev s ! i)) \<and> cid \<noteq> scid (sdp_rx_chan (bt_dev s ! i)) \<and>
             cid \<noteq> scid (ctrl_chan (bt_dev s ! i)) \<and> cid \<noteq> scid (intr_chan (bt_dev s ! i)) \<longrightarrow>
               r = No_hdlr)) \<and>
         (r = Bt_att_hdlr \<longleftrightarrow> dev = None \<and> cid = BT_L2CAP_CID_ATT) \<and>
         (dev = None \<longleftrightarrow>
            (\<forall>j<BT_DEV_MAX.
               \<not> (atomic_test_bit (flags_dev (bt_dev s ! j)) BT_DEV_DEVICE_FOUND \<and>
                  bt_acl_handle handle = acl_handle (bt_dev s ! j)))))) \<and>
   (\<forall>handle cid.
      acl_hdr_handle pkt = Some handle \<and> bt_acl_flags handle \<noteq> BT_ACL_CONT \<and>
      (bt_acl_flags handle = BT_ACL_START \<longrightarrow>
         (\<exists>l2len. l2cap_hdr_len pkt = Some l2len \<and>
            \<not> len - of_nat (BT_HCI_H4_HDR_SIZE + BT_HCI_ACL_HDR_SIZE + BT_L2CAP_HDR_SIZE)
                < ucast l2len)) \<and>
      l2cap_hdr_cid pkt = Some cid \<longrightarrow>
      (\<exists>r. bt_host_acl_hdlr s pkt len = Some (s, Dispatch r pkt len)))"
proof (rule conjI)
  show "\<forall>handle cid.
      acl_hdr_handle pkt = Some handle \<and> bt_acl_flags handle \<noteq> BT_ACL_CONT \<and>
      (bt_acl_flags handle = BT_ACL_START \<longrightarrow>
         (\<exists>l2len. l2cap_hdr_len pkt = Some l2len \<and>
            \<not> len - of_nat (BT_HCI_H4_HDR_SIZE + BT_HCI_ACL_HDR_SIZE + BT_L2CAP_HDR_SIZE)
                < ucast l2len)) \<and>
      l2cap_hdr_cid pkt = Some cid \<longrightarrow>
      (\<exists>r. bt_host_acl_hdlr s pkt len = Some (s, Dispatch r pkt len))"
  proof (intro allI impI)
    fix handle cid
    assume a: "acl_hdr_handle pkt = Some handle \<and> bt_acl_flags handle \<noteq> BT_ACL_CONT \<and>
      (bt_acl_flags handle = BT_ACL_START \<longrightarrow>
         (\<exists>l2len. l2cap_hdr_len pkt = Some l2len \<and>
            \<not> len - of_nat (BT_HCI_H4_HDR_SIZE + BT_HCI_ACL_HDR_SIZE + BT_L2CAP_HDR_SIZE)
                < ucast l2len)) \<and>
      l2cap_hdr_cid pkt = Some cid"
    from a have 1: "acl_hdr_handle pkt = Some handle" by (rule conjunct1)
    from a have 2: "bt_acl_flags handle \<noteq> BT_ACL_CONT" by (elim conjE)
    from a have 3: "bt_acl_flags handle = BT_ACL_START \<longrightarrow>
         (\<exists>l2len. l2cap_hdr_len pkt = Some l2len \<and>
            \<not> len - of_nat (BT_HCI_H4_HDR_SIZE + BT_HCI_ACL_HDR_SIZE + BT_L2CAP_HDR_SIZE)
                < ucast l2len)" by (elim conjE)
    from a have 4: "l2cap_hdr_cid pkt = Some cid" by (elim conjE)
    from acl_hdlr_complete [OF 1 2 3 4, of s]
    show "\<exists>r. bt_host_acl_hdlr s pkt len = Some (s, Dispatch r pkt len)" by (rule exI)
  qed
next
  show "\<forall>s' r frame flen.
      bt_host_acl_hdlr s pkt len = Some (s', Dispatch r frame flen) \<longrightarrow>
      (\<exists>handle cid dev.
         acl_hdr_handle pkt = Some handle \<and> l2cap_hdr_cid frame = Some cid \<and>
         dev = bt_host_get_dev_from_handle s handle \<and>
         (dev = None \<longrightarrow>
            (cid = BT_L2CAP_CID_ATT \<longrightarrow> r = Bt_att_hdlr) \<and>
            (cid \<noteq> BT_L2CAP_CID_ATT \<longrightarrow> r = Dev_null)) \<and>
         (\<forall>i. dev = Some i \<longrightarrow>
            (cid = BT_L2CAP_CID_BR_SIG \<longrightarrow> r = Bt_l2cap_sig_hdlr i) \<and>
            (cid \<noteq> BT_L2CAP_CID_BR_SIG \<and>
             (cid = scid (sdp_tx_chan (bt_dev s ! i)) \<or> cid = scid (sdp_rx_chan (bt_dev s ! i))) \<longrightarrow>
               r = Bt_sdp_hdlr i) \<and>
            (cid \<noteq> BT_L2CAP_CID_BR_SIG \<and>
             cid \<noteq> scid (sdp_tx_chan (bt_dev s ! i)) \<and> cid \<noteq> scid (sdp_rx_chan (bt_dev s ! i)) \<and>
             (cid = scid (ctrl_chan (bt_dev s ! i)) \<or> cid = scid (intr_chan (bt_dev s ! i))) \<longrightarrow>
               r = Bt_hid_hdlr i) \<and>
            (cid \<noteq> BT_L2CAP_CID_BR_SIG \<and>
             cid \<noteq> scid (sdp_tx_chan (bt_dev s ! i)) \<and> cid \<noteq> scid (sdp_rx_chan (bt_dev s ! i)) \<and>
             cid \<noteq> scid (ctrl_chan (bt_dev s ! i)) \<and> cid \<noteq> scid (intr_chan (bt_dev s ! i)) \<longrightarrow>
               r = No_hdlr)) \<and>
         (r = Bt_att_hdlr \<longleftrightarrow> dev = None \<and> cid = BT_L2CAP_CID_ATT) \<and>
         (dev = None \<longleftrightarrow>
            (\<forall>j<BT_DEV_MAX.
               \<not> (atomic_test_bit (flags_dev (bt_dev s ! j)) BT_DEV_DEVICE_FOUND \<and>
                  bt_acl_handle handle = acl_handle (bt_dev s ! j)))))"
  proof (intro allI impI)
    fix s' r frame flen
    assume "bt_host_acl_hdlr s pkt len = Some (s', Dispatch r frame flen)"
    from acl_hdlr_DispatchD [OF this] obtain handle cid where
      h: "acl_hdr_handle pkt = Some handle" and c: "l2cap_hdr_cid frame = Some cid" and
      r: "r = acl_route_of s (bt_host_get_dev_from_handle s handle) cid" by blast
    from acl_route_of_first_match [OF h c refl r]
    show "\<exists>handle cid dev.
         acl_hdr_handle pkt = Some handle \<and> l2cap_hdr_cid frame = Some cid \<and>
         dev = bt_host_get_dev_from_handle s handle \<and>
         (dev = None \<longrightarrow>
            (cid = BT_L2CAP_CID_ATT \<longrightarrow> r = Bt_att_hdlr) \<and>
            (cid \<noteq> BT_L2CAP_CID_ATT \<longrightarrow> r = Dev_null)) \<and>
         (\<forall>i. dev = Some i \<longrightarrow>
            (cid = BT_L2CAP_CID_BR_SIG \<longrightarrow> r = Bt_l2cap_sig_hdlr i) \<and>
            (cid \<noteq> BT_L2CAP_CID_BR_SIG \<and>
             (cid = scid (sdp_tx_chan (bt_dev s ! i)) \<or> cid = scid (sdp_rx_chan (bt_dev s ! i))) \<longrightarrow>
               r = Bt_sdp_hdlr i) \<and>
            (cid \<noteq> BT_L2CAP_CID_BR_SIG \<and>
             cid \<noteq> scid (sdp_tx_chan (bt_dev s ! i)) \<and> cid \<noteq> scid (sdp_rx_chan (bt_dev s ! i)) \<and>
             (cid = scid (ctrl_chan (bt_dev s ! i)) \<or> cid = scid (intr_chan (bt_dev s ! i))) \<longrightarrow>
               r = Bt_hid_hdlr i) \<and>
            (cid \<noteq> BT_L2CAP_CID_BR_SIG \<and>
             cid \<noteq> scid (sdp_tx_chan (bt_dev s ! i)) \<and> cid \<noteq> scid (sdp_rx_chan (bt_dev s ! i)) \<and>
             cid \<noteq> scid (ctrl_chan (bt_dev s ! i)) \<and> cid \<noteq> scid (intr_chan (bt_dev s ! i)) \<longrightarrow>
               r = No_hdlr)) \<and>
         (r = Bt_att_hdlr \<longleftrightarrow> dev = None \<and> cid = BT_L2CAP_CID_ATT) \<and>
         (dev = None \<longleftrightarrow>
            (\<forall>j<BT_DEV_MAX.
               \<not> (atomic_test_bit (flags_dev (bt_dev s ! j)) BT_DEV_DEVICE_FOUND \<and>
                  bt_acl_handle handle = acl_handle (bt_dev s ! j))))"
      by (intro exI)
  qed
qed

lemma one_session_chans:
  "scid (sdp_tx_chan (bt_dev one_session ! 0)) = 0x40"
  "scid (sdp_rx_chan (bt_dev one_session ! 0)) = 0x41"
  "scid (ctrl_chan (bt_dev one_session ! 0)) = 0x42"
  "scid (intr_chan (bt_dev one_session ! 0)) = 0x43"
  by (simp_all add: one_session_def host_zero_def BT_DEV_MAX_def)

text \<open>The two example frames: one to the HID handler of session 0, one to the attribute handler.\<close>

theorem acl_routing_first_match_witness:
  "bt_host_acl_hdlr one_session hid_frame 11
     = Some (one_session, Dispatch (Bt_hid_hdlr 0) hid_frame 11) \<and>
   bt_host_acl_hdlr one_session att_frame 12
     = Some (one_session, Dispatch Bt_att_hdlr att_frame 12)"
proof -
  note H = acl_routing_first_match [of one_session hid_frame 11]
  note A = acl_routing_first_match [of one_session att_frame 12]
  have "\<exists>r. bt_host_acl_hdlr one_session hid_frame 11 = Some (one_session, Dispatch r hid_frame 11)"
    by (rule H [THEN conjunct2, THEN spec, THEN spec, THEN mp, of "0x200B" "0x43"])
       (simp add: hid_frame_handle hid_frame_cid hid_frame_l2len flags_200B BT_ACL_START_def
          BT_ACL_CONT_def BT_HCI_H4_HDR_SIZE_def BT_HCI_ACL_HDR_SIZE_def BT_L2CAP_HDR_SIZE_def)
  then obtain r where r: "bt_host_acl_hdlr one_session hid_frame 11
      = Some (one_session, Dispatch r hid_frame 11)" ..
  from H [THEN conjunct1, THEN spec, THEN spec, THEN spec, THEN spec, THEN mp, OF r]
  have "r = Bt_hid_hdlr 0"
    by (simp add: hid_frame_handle hid_frame_cid one_session_dev one_session_chans
        BT_L2CAP_CID_BR_SIG_def)
  with r have 1: "bt_host_acl_hdlr one_session hid_frame 11
     = Some (one_session, Dispatch (Bt_hid_hdlr 0) hid_frame 11)" by simp
  have "\<exists>r. bt_host_acl_hdlr one_session att_frame 12 = Some (one_session, Dispatch r att_frame 12)"
    by (rule A [THEN conjunct2, THEN spec, THEN spec, THEN mp, of "0x200C" "0x0004"])
       (simp add: att_frame_fields BT_ACL_START_def
          BT_ACL_CONT_def BT_HCI_H4_HDR_SIZE_def BT_HCI_ACL_HDR_SIZE_def BT_L2CAP_HDR_SIZE_def)
  then obtain q where q: "bt_host_acl_hdlr one_session att_frame 12
      = Some (one_session, Dispatch q att_frame 12)" ..
  from A [THEN conjunct1, THEN spec, THEN spec, THEN spec, THEN spec, THEN mp, OF q]
  have "q = Bt_att_hdlr"
    by (simp add: att_frame_fields one_session_no_dev BT_L2CAP_CID_ATT_def)
  with q have 2: "bt_host_acl_hdlr one_session att_frame 12
     = Some (one_session, Dispatch Bt_att_hdlr att_frame 12)" by simp
  from 1 2 show ?thesis by (rule conjI)
qed

section \<open>Properties of the ACL reassembly\<close>

lemma unat_of_nat_u32: "n < 2 ^ 32 \<Longrightarrow> unat (of_nat n :: u32) = n"
  by (simp add: unat_of_nat)

lemma unat_ucast_u16: "unat (ucast (a :: u16) :: u32) = unat a"
proof -
  have "unat a < 2 ^ 16" using unsigned_less [of a, where 'a = nat] by simp
  then show ?thesis by (simp add: unsigned_ucast_eq take_bit_nat_eq_self)
qed

lemma unat_u16_less: "unat (a :: u16) < 65536"
  using unsigned_less [of a, where 'a = nat] by simp

lemma hdr_size: "BT_HCI_H4_HDR_SIZE + BT_HCI_ACL_HDR_SIZE + BT_L2CAP_HDR_SIZE = 9"
  by (simp add: BT_HCI_H4_HDR_SIZE_def BT_HCI_ACL_HDR_SIZE_def BT_L2CAP_HDR_SIZE_def)

lemma le16_SomeD: "le16 p off = Some v \<Longrightarrow> off + 1 < length p"
  by (simp add: le16_def split: if_splits)

lemma le16_append: "off + 1 < length xs \<Longrightarrow> le16 (xs @ ys) off = le16 xs off"
  by (simp add: le16_def nth_append)

lemma le16_append_Some: "le16 xs off = Some v \<Longrightarrow> le16 (xs @ ys) off = Some v"
  using le16_SomeD [of xs off v] by (simp add: le16_append)

lemma hdr_append:
  "acl_hdr_handle xs = Some h \<Longrightarrow> acl_hdr_handle (xs @ ys) = Some h"
  "l2cap_hdr_len xs = Some l \<Longrightarrow> l2cap_hdr_len (xs @ ys) = Some l"
  "l2cap_hdr_cid xs = Some c \<Longrightarrow> l2cap_hdr_cid (xs @ ys) = Some c"
  unfolding acl_hdr_handle_def l2cap_hdr_len_def l2cap_hdr_cid_def
  by (rule le16_append_Some, assumption)+

lemma start_not_cont: "bt_acl_flags h = BT_ACL_START \<Longrightarrow> bt_acl_flags h \<noteq> BT_ACL_CONT"
  by (simp add: BT_ACL_START_def BT_ACL_CONT_def)

lemma is_start_fragmentD:
  assumes "is_start_fragment p" and n: "9 \<le> length p"
  obtains h l cid where "acl_hdr_handle p = Some h" "bt_acl_flags h = BT_ACL_START"
    "l2cap_hdr_len p = Some l" "l2cap_hdr_cid p = Some cid"
    "length p < unat l + 9" "frame_target p = unat l + 9"
proof -
  from assms obtain h l where h: "acl_hdr_handle p = Some h" and l: "l2cap_hdr_len p = Some l"
    and f: "bt_acl_flags h = BT_ACL_START" and lt: "length p < frame_target p"
    by (auto simp: is_start_fragment_def split: option.splits)
  from n obtain cid where c: "l2cap_hdr_cid p = Some cid"
    by (simp add: l2cap_hdr_cid_def le16_def BT_HCI_H4_HDR_SIZE_def BT_HCI_ACL_HDR_SIZE_def)
  from l lt have "length p < unat l + 9" "frame_target p = unat l + 9"
    by (simp_all add: frame_target_def hdr_size)
  with h f l c show ?thesis by (rule that)
qed

lemma is_cont_fragmentD:
  assumes "is_cont_fragment c"
  obtains h a where "acl_hdr_handle c = Some h" "bt_acl_flags h = BT_ACL_CONT"
    "acl_hdr_len c = Some a" "unat a = length (cont_payload c)"
  using assms by (auto simp: is_cont_fragment_def split: option.splits)

lemma get_dev_cong:
  "bt_dev s' = bt_dev s \<Longrightarrow>
   bt_host_get_dev_from_handle s' h = bt_host_get_dev_from_handle s h"
  by (simp add: bt_host_get_dev_from_handle_def)

lemma acl_start_fragment:
  assumes buf: "length (frag_buf s) = 1024"
    and st: "is_start_fragment p" and n9: "9 \<le> length p" and n: "length p \<le> 1024"
  shows "bt_host_acl_hdlr s p (of_nat (length p)) =
           Some (s\<lparr>frag_buf := p @ drop (length p) (frag_buf s),
                   frag_offset := of_nat (length p),
                   frag_size := of_nat (frame_target p)\<rparr>, Frag_start)"
proof -
  obtain h l cid where h: "acl_hdr_handle p = Some h" and f: "bt_acl_flags h = BT_ACL_START"
    and l: "l2cap_hdr_len p = Some l" and lt: "length p < unat l + 9"
    and t: "frame_target p = unat l + 9"
    by (rule is_start_fragmentD [OF st n9])
  let ?d = "bt_host_get_dev_from_handle s h"
  have u: "unat (of_nat (length p) :: u32) = length p"
    using n by (simp add: unat_of_nat_u32)
  have "(9 :: u32) \<le> of_nat (length p)"
    using n9 by (simp add: word_le_nat_alt u)
  then have "unat (of_nat (length p) - 9 :: u32) = length p - 9"
    by (simp add: unat_sub u)
  then have cmp: "(of_nat (length p) - 9 :: u32) < ucast l"
    using lt n9 by (simp add: word_less_nat_alt unat_ucast_u16)
  have m: "memcpy (frag_buf s) 0 p (length p) = Some (p @ drop (length p) (frag_buf s))"
    using n buf by (simp add: memcpy_def)
  have sz: "(ucast l + 9 :: u32) = of_nat (frame_target p)"
    by (simp add: t)
  have "acl_start s ?d p (of_nat (length p)) =
          Some (s\<lparr>frag_buf := p @ drop (length p) (frag_buf s),
                  frag_offset := of_nat (length p),
                  frag_size := of_nat (frame_target p)\<rparr>, Frag_start)"
    using cmp by (simp add: acl_start_def h f l hdr_size u m sz)
  then show ?thesis
    using start_not_cont [OF f] by (simp add: bt_host_acl_hdlr_def h)
qed

lemma acl_cont_step:
  assumes buf: "frag_buf s = pre @ rest" and off: "unat (frag_offset s) = length pre"
    and c: "is_cont_fragment c"
    and fit: "length (cont_payload c) \<le> length rest"
    and small: "length pre + length rest \<le> 1024"
  defines "s1 \<equiv> s\<lparr>frag_buf := (pre @ cont_payload c) @ drop (length (cont_payload c)) rest,
                     frag_offset := of_nat (length pre + length (cont_payload c))\<rparr>"
  shows "\<exists>h. acl_hdr_handle c = Some h \<and>
           bt_host_acl_hdlr s c len =
             (if length pre + length (cont_payload c) < unat (frag_size s)
              then Some (s1, Frag_wait)
              else acl_start s1 (bt_host_get_dev_from_handle s h) (frag_buf s1) (frag_size s1))"
proof -
  from c obtain h a where h: "acl_hdr_handle c = Some h" and f: "bt_acl_flags h = BT_ACL_CONT"
    and a: "acl_hdr_len c = Some a" and ua: "unat a = length (cont_payload c)"
    by (rule is_cont_fragmentD)
  let ?pl = "cont_payload c"
  have m: "memcpy (frag_buf s) (unat (frag_offset s))
             (drop (BT_HCI_H4_HDR_SIZE + BT_HCI_ACL_HDR_SIZE) c) (unat a)
           = Some ((pre @ ?pl) @ drop (length ?pl) rest)"
    using fit by (simp add: memcpy_def buf off ua cont_payload_def)
  have "unat (frag_offset s) + unat (ucast a :: u32) < 2 ^ 32"
    using small fit by (simp add: off unat_ucast_u16 ua)
  then have ua': "unat (frag_offset s + ucast a) = length pre + length ?pl"
    by (simp add: unat_add_lem [THEN iffD1] off unat_ucast_u16 ua)
  have "length pre + length ?pl < 2 ^ 32" using small fit by simp
  then have uo: "unat (of_nat (length pre + length ?pl) :: u32) = length pre + length ?pl"
    by (rule unat_of_nat_u32)
  have "unat (frag_offset s + ucast a) = unat (of_nat (length pre + length ?pl) :: u32)"
    by (simp only: ua' uo)
  then have o: "frag_offset s + ucast a = of_nat (length pre + length ?pl)"
    by (simp only: word_unat_eq_iff)
  have "bt_host_acl_hdlr s c len =
             (if length pre + length ?pl < unat (frag_size s)
              then Some (s1, Frag_wait)
              else acl_start s1 (bt_host_get_dev_from_handle s h) (frag_buf s1) (frag_size s1))"
    by (simp add: bt_host_acl_hdlr_def h f a m o Let_def s1_def word_less_nat_alt uo
        del: of_nat_add)
  with h show ?thesis by blast
qed

lemma acl_start_reassembled:
  assumes buf: "frag_buf s = pre @ rest"
    and st: "is_start_fragment pre" and n9: "9 \<le> length pre"
    and sz: "frag_size s = of_nat (frame_target pre)" and t: "frame_target pre \<le> 1024"
  shows "\<exists>cid. l2cap_hdr_cid pre = Some cid \<and>
           acl_start s d (frag_buf s) (frag_size s) =
             Some (s, Dispatch (acl_route_of s d cid) (frag_buf s) (frag_size s))"
proof -
  obtain h l cid where h: "acl_hdr_handle pre = Some h" and f: "bt_acl_flags h = BT_ACL_START"
    and l: "l2cap_hdr_len pre = Some l" and c: "l2cap_hdr_cid pre = Some cid"
    and tt: "frame_target pre = unat l + 9"
    by (rule is_start_fragmentD [OF st n9])
  have u: "unat (of_nat (frame_target pre) :: u32) = frame_target pre"
    using t by (simp add: unat_of_nat_u32)
  have ge: "9 \<le> frame_target pre" using tt by arith
  then have "(9 :: u32) \<le> of_nat (frame_target pre)"
    by (simp add: word_le_nat_alt u)
  then have "unat (of_nat (frame_target pre) - 9 :: u32) = frame_target pre - 9"
    by (simp add: unat_sub u)
  also have "\<dots> = unat l" using tt by arith
  finally have cmp: "\<not> (of_nat (frame_target pre) - 9 :: u32) < ucast l"
    by (simp add: word_less_nat_alt unat_ucast_u16)
  have "acl_start s d (frag_buf s) (frag_size s) =
             Some (s, Dispatch (acl_route_of s d cid) (frag_buf s) (frag_size s))"
    using cmp
    by (simp add: acl_start_def buf hdr_append(1) [OF h] hdr_append(2) [OF l] hdr_append(3) [OF c] f
        hdr_size sz acl_dispatch_def)
  with c show ?thesis by blast
qed

lemma acl_route_of_get_dev_cong:
  "bt_dev s' = bt_dev s \<Longrightarrow>
   acl_route_of s' (bt_host_get_dev_from_handle s' h) cid =
   acl_route_of s (bt_host_get_dev_from_handle s h) cid"
  using get_dev_cong [of s' s h] acl_route_of_cong [of s' s] by simp

lemma conts_reassemble:
  assumes "frag_buf s = (p @ acc) @ rest" "length (frag_buf s) = 1024"
    and "unat (frag_offset s) = length (p @ acc)"
    and "frag_size s = of_nat (frame_target p)"
    and "is_start_fragment p" "frame_target p \<le> 1024"
    and "\<forall>c\<in>set cs. is_cont_fragment c" "cs \<noteq> []"
    and "length (p @ acc) + sum_list (map (\<lambda>c. length (cont_payload c)) cs) = frame_target p"
    and "length (p @ acc) + sum_list (map (\<lambda>c. length (cont_payload c)) (butlast cs)) < frame_target p"
    and "9 \<le> length p"
  shows "\<exists>s' rest' h cid.
           acl_hdlr_seq s cs =
             Some (s', replicate (length cs - 1) Frag_wait @
                       [Dispatch (acl_route_of s (bt_host_get_dev_from_handle s h) cid)
                          (frag_buf s') (frag_size s')]) \<and>
           acl_hdr_handle (last cs) = Some h \<and> l2cap_hdr_cid p = Some cid \<and>
           frag_buf s' = (p @ acc @ concat (map cont_payload cs)) @ rest' \<and>
           length (frag_buf s') = 1024 \<and>
           frag_size s' = of_nat (frame_target p) \<and> frag_offset s' = frag_size s' \<and>
           bt_dev s' = bt_dev s"
  using assms
proof (induction cs arbitrary: s acc rest)
  case Nil
  then show ?case by simp
next
  case (Cons c cs)
  let ?pre = "p @ acc" and ?pl = "cont_payload c"
  let ?T = "frame_target p"
  have c: "is_cont_fragment c" using Cons.prems(7) by simp
  have tot: "length ?pre + length ?pl + sum_list (map (\<lambda>c. length (cont_payload c)) cs) = ?T"
    using Cons.prems(9) by simp
  have lenrest: "length ?pre + length rest = 1024"
    using Cons.prems(1,2) by simp
  have fit: "length ?pl \<le> length rest"
    using tot lenrest Cons.prems(6) by linarith
  have small: "length ?pre + length rest \<le> 1024" using lenrest by simp
  have usz: "unat (frag_size s) = ?T"
    using Cons.prems(6) by (simp add: Cons.prems(4) unat_of_nat_u32)
  define s1 where "s1 = s\<lparr>frag_buf := (?pre @ ?pl) @ drop (length ?pl) rest,
                     frag_offset := of_nat (length ?pre + length ?pl)\<rparr>"
  from acl_cont_step [OF Cons.prems(1) Cons.prems(3) c fit small, of "of_nat (length c)",
      folded s1_def]
  obtain h where h: "acl_hdr_handle c = Some h"
    and step: "bt_host_acl_hdlr s c (of_nat (length c)) =
             (if length ?pre + length ?pl < ?T
              then Some (s1, Frag_wait)
              else acl_start s1 (bt_host_get_dev_from_handle s h) (frag_buf s1) (frag_size s1))"
    unfolding usz by blast
  have dev1: "bt_dev s1 = bt_dev s" by (simp add: s1_def)
  have buf1: "frag_buf s1 = (p @ (acc @ ?pl)) @ drop (length ?pl) rest" by (simp add: s1_def)
  have len1: "length (frag_buf s1) = 1024" using fit lenrest by (simp add: s1_def)
  have sz1: "frag_size s1 = of_nat ?T" by (simp add: s1_def Cons.prems(4))
  have "length ?pre + length ?pl < 2 ^ 32" using fit lenrest by simp
  then have off1: "unat (frag_offset s1) = length (p @ (acc @ ?pl))"
    by (simp add: s1_def unat_of_nat_u32 del: of_nat_add)
  show ?case
  proof (cases "cs = []")
    case True
    with tot have eq: "length ?pre + length ?pl = ?T" by simp
    have buf1': "frag_buf s1 = p @ (acc @ ?pl @ drop (length ?pl) rest)" by (simp add: s1_def)
    from acl_start_reassembled [OF buf1' Cons.prems(5) Cons.prems(11) sz1 Cons.prems(6),
        of "bt_host_get_dev_from_handle s h"]
    obtain cid where cid: "l2cap_hdr_cid p = Some cid"
      and d: "acl_start s1 (bt_host_get_dev_from_handle s h) (frag_buf s1) (frag_size s1) =
             Some (s1, Dispatch (acl_route_of s1 (bt_host_get_dev_from_handle s h) cid)
                     (frag_buf s1) (frag_size s1))" by blast
    have r: "acl_route_of s1 (bt_host_get_dev_from_handle s h) cid
           = acl_route_of s (bt_host_get_dev_from_handle s h) cid"
      by (rule acl_route_of_cong [OF dev1])
    have run: "acl_hdlr_seq s (c # cs) =
             Some (s1, replicate (length (c # cs) - 1) Frag_wait @
                       [Dispatch (acl_route_of s (bt_host_get_dev_from_handle s h) cid)
                          (frag_buf s1) (frag_size s1)])"
      using True step eq d r by simp
    have o: "frag_offset s1 = frag_size s1"
      by (simp only: sz1 flip: eq) (simp add: s1_def)
    have b: "frag_buf s1 = (p @ acc @ concat (map cont_payload (c # cs))) @ drop (length ?pl) rest"
      using True by (simp add: s1_def)
    from run h cid b len1 sz1 o dev1 True show ?thesis
      by (intro exI [of _ s1] exI [of _ "drop (length ?pl) rest"] exI [of _ h] exI [of _ cid])
         simp
  next
    case False
    then have bl: "butlast (c # cs) = c # butlast cs" by simp
    from Cons.prems(10) have lt': "length (p @ (acc @ ?pl))
        + sum_list (map (\<lambda>c. length (cont_payload c)) (butlast cs)) < ?T"
      using False by (simp add: add.assoc)
    then have lt: "length ?pre + length ?pl < ?T" by simp
    have tot': "length (p @ (acc @ ?pl)) + sum_list (map (\<lambda>c. length (cont_payload c)) cs) = ?T"
      using tot by simp
    have all: "\<forall>c\<in>set cs. is_cont_fragment c" using Cons.prems(7) by simp
    let ?P = "\<lambda>s' rest' h' cid.
           acl_hdlr_seq s1 cs =
             Some (s', replicate (length cs - 1) Frag_wait @
                       [Dispatch (acl_route_of s1 (bt_host_get_dev_from_handle s1 h') cid)
                          (frag_buf s') (frag_size s')]) \<and>
           acl_hdr_handle (last cs) = Some h' \<and> l2cap_hdr_cid p = Some cid \<and>
           frag_buf s' = (p @ (acc @ ?pl) @ concat (map cont_payload cs)) @ rest' \<and>
           length (frag_buf s') = 1024 \<and>
           frag_size s' = of_nat ?T \<and> frag_offset s' = frag_size s' \<and>
           bt_dev s' = bt_dev s1"
    have "\<exists>s' rest' h' cid. ?P s' rest' h' cid"
      by (rule Cons.IH [OF buf1 len1 off1 sz1 Cons.prems(5) Cons.prems(6) all False tot' lt'
            Cons.prems(11)])
    then obtain s' where "\<exists>rest' h' cid. ?P s' rest' h' cid" ..
    then obtain rest' where "\<exists>h' cid. ?P s' rest' h' cid" ..
    then obtain h' where "\<exists>cid. ?P s' rest' h' cid" ..
    then obtain cid where P: "?P s' rest' h' cid" ..
    from P have run': "acl_hdlr_seq s1 cs =
             Some (s', replicate (length cs - 1) Frag_wait @
                       [Dispatch (acl_route_of s1 (bt_host_get_dev_from_handle s1 h') cid)
                          (frag_buf s') (frag_size s')])" by (rule conjunct1)
    from P have h': "acl_hdr_handle (last cs) = Some h'" by (elim conjE)
    from P have cid: "l2cap_hdr_cid p = Some cid" by (elim conjE)
    from P have b': "frag_buf s' = (p @ (acc @ ?pl) @ concat (map cont_payload cs)) @ rest'"
      by (elim conjE)
    from P have l': "length (frag_buf s') = 1024" by (elim conjE)
    from P have z': "frag_size s' = of_nat ?T" by (elim conjE)
    from P have o': "frag_offset s' = frag_size s'" by (elim conjE)
    from P have d': "bt_dev s' = bt_dev s1" by (elim conjE)
    have r: "acl_route_of s1 (bt_host_get_dev_from_handle s1 h') cid
           = acl_route_of s (bt_host_get_dev_from_handle s h') cid"
      by (rule acl_route_of_get_dev_cong [OF dev1])
    have rep: "Frag_wait # replicate (length cs - 1) Frag_wait = replicate (length cs) Frag_wait"
      using False by (cases cs) simp_all
    have run: "acl_hdlr_seq s (c # cs) =
             Some (s', replicate (length (c # cs) - 1) Frag_wait @
                       [Dispatch (acl_route_of s (bt_host_get_dev_from_handle s h') cid)
                          (frag_buf s') (frag_size s')])"
      using step lt run' r rep by simp
    have last: "acl_hdr_handle (last (c # cs)) = Some h'" using False h' by simp
    have b: "frag_buf s' = (p @ acc @ concat (map cont_payload (c # cs))) @ rest'"
      using b' by simp
    from run last cid b l' z' o' d' dev1 show ?thesis
      by (intro exI [of _ s'] exI [of _ rest'] exI [of _ h'] exI [of _ cid]) simp
  qed
qed

lemma length_concat_payload:
  "length (concat (map cont_payload cs)) = sum_list (map (\<lambda>c. length (cont_payload c)) cs)"
  by (induction cs) simp_all

text \<open>
  A start fragment that ends inside the L2CAP header is not buffered. The length less the
  three header sizes is computed in \<^verbatim>\<open>uint32_t\<close> and wraps to a number that no L2CAP
  length exceeds, so the packet is taken for a complete frame, and its channel id is read
  past its end.
\<close>

lemma short_len_wraps:
  assumes "unat (pkt_len :: u32) < 9"
  shows "\<not> pkt_len - 9 < ucast (l :: u16)"
proof -
  have "unat (pkt_len - 9) = unat pkt_len + 2 ^ 32 - 9"
    using assms by (simp add: unat_sub_if_size word_size)
  then show ?thesis
    using unat_u16_less [of l] by (simp add: word_less_nat_alt unat_ucast_u16)
qed

lemma short_start_not_buffered:
  assumes st: "is_start_fragment p"
    and short: "length p < BT_HCI_H4_HDR_SIZE + BT_HCI_ACL_HDR_SIZE + BT_L2CAP_HDR_SIZE"
  shows "bt_host_acl_hdlr s p (of_nat (length p)) = None"
proof -
  from st obtain h l where h: "acl_hdr_handle p = Some h" and l: "l2cap_hdr_len p = Some l"
    and f: "bt_acl_flags h = BT_ACL_START"
    by (auto simp: is_start_fragment_def split: option.splits)
  from short have n: "length p < 9" by (simp add: hdr_size)
  then have c: "l2cap_hdr_cid p = None"
    by (simp add: l2cap_hdr_cid_def le16_def BT_HCI_H4_HDR_SIZE_def BT_HCI_ACL_HDR_SIZE_def)
  from n have "unat (of_nat (length p) :: u32) < 9" by (simp add: unat_of_nat_u32)
  then have w: "\<not> (of_nat (length p) :: u32) - 9 < ucast l" by (rule short_len_wraps)
  have "acl_start s d p (of_nat (length p)) = None" for d
    using w by (simp add: acl_start_def h f l hdr_size acl_dispatch_def c)
  then show ?thesis
    using start_not_cont [OF f] by (simp add: bt_host_acl_hdlr_def h)
qed

text \<open>
  Claim C1, as amended. Let the scratch buffer have its 1024 bytes, let \<open>p\<close> be a start
  fragment that holds the three headers whole, 9 bytes or more, and \<open>cs\<close>
  continuation fragments whose payloads, added to the length of \<open>p\<close>, reach the target
  size of the frame with the last packet and not before, and let the target size be at
  most 1024. Then \<^verbatim>\<open>bt_host_acl_hdlr\<close>, called on the packets in order, each with its
  length, returns without dispatching for every packet but the last and dispatches once,
  on the last packet: the frame dispatched is the scratch buffer with the target size as
  its length, its bytes are \<open>p\<close> followed by the payloads in arrival order, and it is
  routed by the channel id of \<open>p\<close> for the session of the handle of the last packet.
  Afterwards the offset equals the target size, and any start fragment of 9 to 1024
  bytes that comes next is copied over the beginning of the buffer and sets the offset
  and the target size anew.
\<close>

theorem acl_reassembly:
  assumes buf: "length (frag_buf s) = 1024"
    and st: "is_start_fragment p"
    and hdr: "BT_HCI_H4_HDR_SIZE + BT_HCI_ACL_HDR_SIZE + BT_L2CAP_HDR_SIZE \<le> length p"
    and cs: "\<forall>c\<in>set cs. is_cont_fragment c"
    and tot: "length p + sum_list (map (\<lambda>c. length (cont_payload c)) cs) = frame_target p"
    and before: "length p + sum_list (map (\<lambda>c. length (cont_payload c)) (butlast cs))
                   < frame_target p"
    and fits: "frame_target p \<le> 1024"
  shows "\<exists>s' r.
           acl_hdlr_seq s (p # cs) =
             Some (s', Frag_start # replicate (length cs - 1) Frag_wait @
                       [Dispatch r (frag_buf s') (frag_size s')]) \<and>
           unat (frag_size s') = frame_target p \<and>
           take (frame_target p) (frag_buf s') = p @ concat (map cont_payload cs) \<and>
           (\<exists>h cid. acl_hdr_handle (last cs) = Some h \<and> l2cap_hdr_cid p = Some cid \<and>
              r = acl_route_of s (bt_host_get_dev_from_handle s h) cid) \<and>
           frag_offset s' = frag_size s' \<and>
           (\<forall>q. is_start_fragment q \<and>
                BT_HCI_H4_HDR_SIZE + BT_HCI_ACL_HDR_SIZE + BT_L2CAP_HDR_SIZE \<le> length q \<and>
                length q \<le> 1024 \<longrightarrow>
              bt_host_acl_hdlr s' q (of_nat (length q)) =
                Some (s'\<lparr>frag_buf := q @ drop (length q) (frag_buf s'),
                         frag_offset := of_nat (length q),
                         frag_size := of_nat (frame_target q)\<rparr>, Frag_start))"
proof -
  let ?T = "frame_target p"
  from st have lt: "length p < ?T"
    by (auto simp: is_start_fragment_def split: option.splits)
  with fits have n: "length p \<le> 1024" by simp
  from hdr have n9: "9 \<le> length p" by (simp add: hdr_size)
  define s0 where "s0 = s\<lparr>frag_buf := p @ drop (length p) (frag_buf s),
                   frag_offset := of_nat (length p), frag_size := of_nat ?T\<rparr>"
  have step0: "bt_host_acl_hdlr s p (of_nat (length p)) = Some (s0, Frag_start)"
    unfolding s0_def by (rule acl_start_fragment [OF buf st n9 n])
  have ne: "cs \<noteq> []" using tot lt by auto
  have b0: "frag_buf s0 = (p @ []) @ drop (length p) (frag_buf s)" by (simp add: s0_def)
  have l0: "length (frag_buf s0) = 1024" using n buf by (simp add: s0_def)
  have o0: "unat (frag_offset s0) = length (p @ [])"
    using n by (simp add: s0_def unat_of_nat_u32)
  have z0: "frag_size s0 = of_nat ?T" by (simp add: s0_def)
  have d0: "bt_dev s0 = bt_dev s" by (simp add: s0_def)
  have tot0: "length (p @ []) + sum_list (map (\<lambda>c. length (cont_payload c)) cs) = ?T"
    using tot by simp
  have before0: "length (p @ []) + sum_list (map (\<lambda>c. length (cont_payload c)) (butlast cs)) < ?T"
    using before by simp
  let ?P = "\<lambda>s' rest' h cid.
           acl_hdlr_seq s0 cs =
             Some (s', replicate (length cs - 1) Frag_wait @
                       [Dispatch (acl_route_of s0 (bt_host_get_dev_from_handle s0 h) cid)
                          (frag_buf s') (frag_size s')]) \<and>
           acl_hdr_handle (last cs) = Some h \<and> l2cap_hdr_cid p = Some cid \<and>
           frag_buf s' = (p @ [] @ concat (map cont_payload cs)) @ rest' \<and>
           length (frag_buf s') = 1024 \<and>
           frag_size s' = of_nat ?T \<and> frag_offset s' = frag_size s' \<and>
           bt_dev s' = bt_dev s0"
  have "\<exists>s' rest' h cid. ?P s' rest' h cid"
    by (rule conts_reassemble [OF b0 l0 o0 z0 st fits cs ne tot0 before0 n9])
  then obtain s' where "\<exists>rest' h cid. ?P s' rest' h cid" ..
  then obtain rest' where "\<exists>h cid. ?P s' rest' h cid" ..
  then obtain h where "\<exists>cid. ?P s' rest' h cid" ..
  then obtain cid where P: "?P s' rest' h cid" ..
  let ?r = "acl_route_of s (bt_host_get_dev_from_handle s h) cid"
  from P have run': "acl_hdlr_seq s0 cs =
             Some (s', replicate (length cs - 1) Frag_wait @
                       [Dispatch (acl_route_of s0 (bt_host_get_dev_from_handle s0 h) cid)
                          (frag_buf s') (frag_size s')])" by (rule conjunct1)
  from P have h: "acl_hdr_handle (last cs) = Some h" by (elim conjE)
  from P have cid: "l2cap_hdr_cid p = Some cid" by (elim conjE)
  from P have b': "frag_buf s' = (p @ [] @ concat (map cont_payload cs)) @ rest'" by (elim conjE)
  from P have l': "length (frag_buf s') = 1024" by (elim conjE)
  from P have z': "frag_size s' = of_nat ?T" by (elim conjE)
  from P have o': "frag_offset s' = frag_size s'" by (elim conjE)
  have r: "acl_route_of s0 (bt_host_get_dev_from_handle s0 h) cid = ?r"
    by (rule acl_route_of_get_dev_cong [OF d0])
  have 1: "acl_hdlr_seq s (p # cs) =
             Some (s', Frag_start # replicate (length cs - 1) Frag_wait @
                       [Dispatch ?r (frag_buf s') (frag_size s')])"
    using step0 run' r by simp
  have 2: "unat (frag_size s') = ?T"
    using fits by (simp add: z' unat_of_nat_u32)
  have "length (p @ concat (map cont_payload cs)) = ?T"
    using tot by (simp add: length_concat_payload)
  then have 3: "take ?T (frag_buf s') = p @ concat (map cont_payload cs)"
    by (simp add: b')
  have 4: "\<exists>h cid. acl_hdr_handle (last cs) = Some h \<and> l2cap_hdr_cid p = Some cid \<and>
              ?r = acl_route_of s (bt_host_get_dev_from_handle s h) cid"
    using h cid by blast
  have 5: "\<forall>q. is_start_fragment q \<and>
                BT_HCI_H4_HDR_SIZE + BT_HCI_ACL_HDR_SIZE + BT_L2CAP_HDR_SIZE \<le> length q \<and>
                length q \<le> 1024 \<longrightarrow>
              bt_host_acl_hdlr s' q (of_nat (length q)) =
                Some (s'\<lparr>frag_buf := q @ drop (length q) (frag_buf s'),
                         frag_offset := of_nat (length q),
                         frag_size := of_nat (frame_target q)\<rparr>, Frag_start)"
    using acl_start_fragment [OF l'] by (simp add: hdr_size)
  show ?thesis
    by (rule exI [of _ s'], rule exI [of _ ?r], rule conjI [OF 1], rule conjI [OF 2],
        rule conjI [OF 3], rule conjI [OF 4], rule conjI [OF o'], rule 5)
qed

lemmas hdr_defs = acl_hdr_handle_def acl_hdr_len_def l2cap_hdr_len_def l2cap_hdr_cid_def le16_def
  BT_HCI_H4_HDR_SIZE_def BT_HCI_ACL_HDR_SIZE_def BT_L2CAP_HDR_SIZE_def
  bt_acl_flags_def BT_ACL_START_def BT_ACL_CONT_def

lemma frag_first_start: "is_start_fragment frag_first" "frame_target frag_first = 15"
  "9 \<le> length frag_first"
  by (simp_all add: is_start_fragment_def frame_target_def frag_first_def hdr_defs)

lemma frag_conts:
  "is_cont_fragment frag_mid" "is_cont_fragment frag_last" "is_cont_fragment frag_empty"
  "cont_payload frag_mid = [0x11, 0x12, 0x13]" "cont_payload frag_last = [0x14]"
  "cont_payload frag_empty = []"
  "acl_hdr_handle frag_last = Some 0x100B" "acl_hdr_handle frag_empty = Some 0x100B"
  by (simp_all add: is_cont_fragment_def cont_payload_def frag_mid_def frag_last_def
      frag_empty_def hdr_defs)

lemma one_session_dev_cont: "bt_host_get_dev_from_handle one_session 0x100B = Some 0"
  by (simp add: bt_host_get_dev_from_handle_def bt_dev_loop_Some one_session_def host_zero_def
      BT_DEV_MAX_def atomic_test_bit_def BT_DEV_DEVICE_FOUND_def bt_acl_handle_def)

lemma frag_first_cid: "l2cap_hdr_cid frag_first = Some 0x43"
  by (simp add: frag_first_def hdr_defs)

lemma route_hid: "acl_route_of one_session (Some 0) 0x43 = Bt_hid_hdlr 0"
  by (simp add: acl_route_of_def one_session_chans BT_L2CAP_CID_BR_SIG_def)

lemma one_session_buf: "length (frag_buf one_session) = 1024"
  by (simp add: one_session_def host_zero_def)

text \<open>The frame of 15 bytes in three fragments goes to the HID handler of session 0.\<close>

theorem acl_reassembly_witness:
  "\<exists>s'. acl_hdlr_seq one_session [frag_first, frag_mid, frag_last] =
           Some (s', [Frag_start, Frag_wait, Dispatch (Bt_hid_hdlr 0) (frag_buf s') (frag_size s')]) \<and>
         unat (frag_size s') = 15 \<and>
         take 15 (frag_buf s') = frag_first @ [0x11, 0x12, 0x13, 0x14] \<and>
         frag_offset s' = frag_size s'"
proof -
  have cs: "\<forall>c\<in>set [frag_mid, frag_last]. is_cont_fragment c" by (simp add: frag_conts)
  have tot: "length frag_first + sum_list (map (\<lambda>c. length (cont_payload c)) [frag_mid, frag_last])
      = frame_target frag_first"
    by (simp add: frag_conts frag_first_start(1,2)) (simp add: frag_first_def)
  have before: "length frag_first
      + sum_list (map (\<lambda>c. length (cont_payload c)) (butlast [frag_mid, frag_last]))
      < frame_target frag_first"
    by (simp add: frag_conts frag_first_start(1,2)) (simp add: frag_first_def)
  have fits: "frame_target frag_first \<le> 1024" by (simp add: frag_first_start(1,2))
  have hdr: "BT_HCI_H4_HDR_SIZE + BT_HCI_ACL_HDR_SIZE + BT_L2CAP_HDR_SIZE \<le> length frag_first"
    by (simp add: hdr_size frag_first_def)
  from acl_reassembly [OF one_session_buf frag_first_start(1) hdr cs tot before fits]
  obtain s' r where
    run: "acl_hdlr_seq one_session [frag_first, frag_mid, frag_last] =
             Some (s', Frag_start # replicate (length [frag_mid, frag_last] - 1) Frag_wait @
                       [Dispatch r (frag_buf s') (frag_size s')])"
    and sz: "unat (frag_size s') = frame_target frag_first"
    and tk: "take (frame_target frag_first) (frag_buf s')
               = frag_first @ concat (map cont_payload [frag_mid, frag_last])"
    and rt: "\<exists>h cid. acl_hdr_handle (last [frag_mid, frag_last]) = Some h \<and>
               l2cap_hdr_cid frag_first = Some cid \<and>
               r = acl_route_of one_session (bt_host_get_dev_from_handle one_session h) cid"
    and off: "frag_offset s' = frag_size s'"
    by blast
  from rt have r: "r = Bt_hid_hdlr 0"
    by (simp add: frag_conts frag_first_cid one_session_dev_cont route_hid)
  from run sz tk off r show ?thesis
    by (intro exI [of _ s']) (simp add: frag_first_start(1,2) frag_conts)
qed

lemma host_zero_buf: "length (frag_buf host_zero) = 1024"
  by (simp add: host_zero_def)

lemma big_first_start: "is_start_fragment big_first" "frame_target big_first = 1025"
  "9 \<le> length big_first"
  by (simp_all add: is_start_fragment_def frame_target_def big_first_def hdr_defs)

lemma big_cont_fields:
  "acl_hdr_handle big_cont = Some 0x100B" "acl_hdr_len big_cont = Some 1016"
  "cont_payload big_cont = replicate 1016 0"
  by (simp_all add: big_cont_def cont_payload_def hdr_defs nth_append)

lemma big_cont_cont: "is_cont_fragment big_cont"
  by (simp add: is_cont_fragment_def big_cont_fields) (simp add: hdr_defs)

lemma flags_100B: "bt_acl_flags 0x100B = BT_ACL_CONT"
  by (simp add: bt_acl_flags_def BT_ACL_CONT_def)

lemma big_cont_overflow:
  assumes "length (frag_buf s) = 1024" "unat (frag_offset s) = 9"
  shows "bt_host_acl_hdlr s big_cont len = None"
  using assms
  by (simp add: bt_host_acl_hdlr_def big_cont_fields flags_100B memcpy_def
      big_cont_fields(3) [unfolded cont_payload_def])

text \<open>
  Against C1 as first stated: a start fragment of 9 bytes that declares 1016 bytes of
  L2CAP payload, followed by a continuation that carries the 1016 bytes. The cumulative
  length equals the target size, 1025, and the copy of the continuation runs past the
  end of the scratch buffer.
\<close>

theorem acl_reassembly_counterexample:
  "is_start_fragment big_first \<and> length big_first = 9 \<and> is_cont_fragment big_cont \<and>
   length big_first + length (cont_payload big_cont) = frame_target big_first \<and>
   acl_hdlr_seq host_zero [big_first, big_cont] = None"
proof -
  have n: "length big_first \<le> 1024" by (simp add: big_first_def)
  note s0 = acl_start_fragment [OF host_zero_buf big_first_start(1) big_first_start(3) n]
  have "bt_host_acl_hdlr
          (host_zero\<lparr>frag_buf := big_first @ drop (length big_first) (frag_buf host_zero),
                      frag_offset := of_nat (length big_first),
                      frag_size := of_nat (frame_target big_first)\<rparr>)
          big_cont (of_nat (length big_cont)) = None"
    by (rule big_cont_overflow) (simp_all add: big_first_def host_zero_def)
  with s0 have 1: "acl_hdlr_seq host_zero [big_first, big_cont] = None" by simp
  have 2: "length big_first + length (cont_payload big_cont) = frame_target big_first"
    by (simp add: big_first_start(1,2) big_cont_fields) (simp add: big_first_def)
  have 3: "length big_first = 9" by (simp add: big_first_def)
  from big_first_start(1) 3 big_cont_cont 2 1 show ?thesis by simp
qed

lemma acl_hdlr_seq_append:
  "acl_hdlr_seq s xs = Some (s1, rs1) \<Longrightarrow> acl_hdlr_seq s1 ys = Some (s2, rs2)
     \<Longrightarrow> acl_hdlr_seq s (xs @ ys) = Some (s2, rs1 @ rs2)"
proof (induction xs arbitrary: s rs1)
  case Nil
  then show ?case by simp
next
  case (Cons x xs)
  from Cons.prems(1) obtain sa r ra where
    a: "bt_host_acl_hdlr s x (of_nat (length x)) = Some (sa, r)"
    and b: "acl_hdlr_seq sa xs = Some (s1, ra)" and c: "rs1 = r # ra"
    by (auto split: option.splits)
  from Cons.IH [OF b Cons.prems(2)] a c show ?case by simp
qed

text \<open>
  Why the target must not be reached before the last packet: an empty continuation
  after the frame is complete is dispatched as a second frame.
\<close>

lemma empty_continuation_dispatches_again:
  "\<exists>s' r1 f1 n1 r2 f2 n2.
     acl_hdlr_seq one_session [frag_first, frag_mid, frag_last, frag_empty] =
       Some (s', [Frag_start, Frag_wait, Dispatch r1 f1 n1, Dispatch r2 f2 n2])"
proof -
  let ?p = frag_first and ?T = "frame_target frag_first"
  let ?cs = "[frag_mid, frag_last]"
  let ?pre = "?p @ [] @ concat (map cont_payload ?cs)"
  have n: "length ?p \<le> 1024" by (simp add: frag_first_def)
  define s0 where "s0 = one_session\<lparr>frag_buf := ?p @ drop (length ?p) (frag_buf one_session),
                   frag_offset := of_nat (length ?p), frag_size := of_nat ?T\<rparr>"
  have step0: "bt_host_acl_hdlr one_session ?p (of_nat (length ?p)) = Some (s0, Frag_start)"
    unfolding s0_def
    by (rule acl_start_fragment [OF one_session_buf frag_first_start(1) frag_first_start(3) n])
  have b0: "frag_buf s0 = (?p @ []) @ drop (length ?p) (frag_buf one_session)" by (simp add: s0_def)
  have l0: "length (frag_buf s0) = 1024" using n one_session_buf by (simp add: s0_def)
  have o0: "unat (frag_offset s0) = length (?p @ [])"
    using n by (simp add: s0_def unat_of_nat_u32)
  have z0: "frag_size s0 = of_nat ?T" by (simp add: s0_def)
  have cs: "\<forall>c\<in>set ?cs. is_cont_fragment c" by (simp add: frag_conts)
  have tot: "length (?p @ []) + sum_list (map (\<lambda>c. length (cont_payload c)) ?cs) = ?T"
    by (simp add: frag_conts frag_first_start) (simp add: frag_first_def)
  have before: "length (?p @ []) + sum_list (map (\<lambda>c. length (cont_payload c)) (butlast ?cs)) < ?T"
    by (simp add: frag_conts frag_first_start) (simp add: frag_first_def)
  have fits: "?T \<le> 1024" by (simp add: frag_first_start)
  from conts_reassemble [OF b0 l0 o0 z0 frag_first_start(1) fits cs _ tot before
      frag_first_start(3)]
  obtain s' rest' r1 where
    run: "acl_hdlr_seq s0 ?cs = Some (s', [Frag_wait, Dispatch r1 (frag_buf s') (frag_size s')])"
    and b': "frag_buf s' = ?pre @ rest'" and l': "length (frag_buf s') = 1024"
    and z': "frag_size s' = of_nat ?T" and o': "frag_offset s' = frag_size s'"
    by auto
  have lp: "length ?pre = ?T"
    by (simp add: frag_conts frag_first_start) (simp add: frag_first_def)
  have usz: "unat (frag_size s') = ?T" using fits by (simp add: z' unat_of_nat_u32)
  have uo: "unat (frag_offset s') = length ?pre" by (simp only: o' usz lp)
  have pl: "cont_payload frag_empty = []" by (rule frag_conts)
  define s1 where "s1 = s'\<lparr>frag_buf := (?pre @ cont_payload frag_empty)
                              @ drop (length (cont_payload frag_empty)) rest',
                     frag_offset := of_nat (length ?pre + length (cont_payload frag_empty))\<rparr>"
  have small: "length ?pre + length rest' \<le> 1024" using l' b' by simp
  have fit: "length (cont_payload frag_empty) \<le> length rest'" by (simp add: pl)
  have nlt: "\<not> length ?pre + length (cont_payload frag_empty) < unat (frag_size s')"
    by (simp only: pl usz lp)
  from acl_cont_step [OF b' uo frag_conts(3) fit small, of "of_nat (length frag_empty)",
      folded s1_def]
  obtain h where
    stepif: "bt_host_acl_hdlr s' frag_empty (of_nat (length frag_empty)) =
             (if length ?pre + length (cont_payload frag_empty) < unat (frag_size s')
              then Some (s1, Frag_wait)
              else acl_start s1 (bt_host_get_dev_from_handle s' h) (frag_buf s1) (frag_size s1))"
    by blast
  have step: "bt_host_acl_hdlr s' frag_empty (of_nat (length frag_empty)) =
             acl_start s1 (bt_host_get_dev_from_handle s' h) (frag_buf s1) (frag_size s1)"
    using stepif nlt by (simp only: if_False)
  have b1: "frag_buf s1 = ?p @ (concat (map cont_payload ?cs) @ rest')"
    by (simp add: s1_def pl)
  have z1: "frag_size s1 = of_nat ?T" by (simp add: s1_def z')
  from acl_start_reassembled [OF b1 frag_first_start(1) frag_first_start(3) z1 fits,
      of "bt_host_get_dev_from_handle s' h"] step
  obtain r2 where
    last: "bt_host_acl_hdlr s' frag_empty (of_nat (length frag_empty)) =
             Some (s1, Dispatch r2 (frag_buf s1) (frag_size s1))" by auto
  have "acl_hdlr_seq one_session ([?p] @ ?cs @ [frag_empty]) =
          Some (s1, [Frag_start] @ [Frag_wait, Dispatch r1 (frag_buf s') (frag_size s')]
                     @ [Dispatch r2 (frag_buf s1) (frag_size s1)])"
  proof (rule acl_hdlr_seq_append)
    show "acl_hdlr_seq one_session [?p] = Some (s0, [Frag_start])" using step0 by simp
    show "acl_hdlr_seq s0 (?cs @ [frag_empty]) =
            Some (s1, [Frag_wait, Dispatch r1 (frag_buf s') (frag_size s')]
                     @ [Dispatch r2 (frag_buf s1) (frag_size s1)])"
    proof (rule acl_hdlr_seq_append [OF run])
      show "acl_hdlr_seq s' [frag_empty] = Some (s1, [Dispatch r2 (frag_buf s1) (frag_size s1)])"
        using last by simp
    qed
  qed
  then show ?thesis by auto
qed

text \<open>
  Why the start fragment must hold the three headers whole: the frame of 15 bytes with a
  start fragment of 8 bytes and a continuation that carries the other 7. The start
  fragment is handled as a complete frame whose channel id lies past its end, and nothing
  is reassembled.
\<close>

lemma short_start_not_reassembled:
  "is_start_fragment short_first \<and> length short_first = 8 \<and> is_cont_fragment short_cont \<and>
   length short_first + length (cont_payload short_cont) = frame_target short_first \<and>
   frame_target short_first = 15 \<and>
   bt_host_acl_hdlr one_session short_first (of_nat (length short_first)) = None \<and>
   acl_hdlr_seq one_session [short_first, short_cont] = None"
proof -
  have st: "is_start_fragment short_first" and t: "frame_target short_first = 15"
    by (simp_all add: is_start_fragment_def frame_target_def short_first_def hdr_defs)
  have n: "length short_first = 8" by (simp add: short_first_def)
  have c: "is_cont_fragment short_cont" and pl: "length (cont_payload short_cont) = 7"
    by (simp_all add: is_cont_fragment_def cont_payload_def short_cont_def hdr_defs)
  have h: "bt_host_acl_hdlr one_session short_first (of_nat (length short_first)) = None"
    by (rule short_start_not_buffered [OF st]) (simp add: n hdr_size)
  then have "acl_hdlr_seq one_session [short_first, short_cont] = None" by simp
  with st n c pl t h show ?thesis by simp
qed

end
